theory Spec2Isabelle
  imports Complex_Main "HOL-Library.AList" "HOL-Library.Multiset"
begin

section \<open>Clock readings\<close>

text \<open>
  A \<open>time.Time\<close> is the number of nanoseconds since the zero value of the type; the zero
  value itself (the \<open>EndTime\<close> of a struct literal that does not set it) is \<open>0\<close>. Every
  call of \<open>time.Now()\<close> in the source is a parameter of the function that makes it, in the
  order in which the calls are made. A \<open>time.Duration\<close> is a 64-bit count of nanoseconds:
  \<open>Time.Sub\<close> saturates at its two ends.
\<close>

type_synonym time = int
type_synonym duration = int

definition zeroTime :: time where
  "zeroTime = 0"

definition maxDuration :: duration where
  "maxDuration = 9223372036854775807"

definition minDuration :: duration where
  "minDuration = - 9223372036854775808"

definition time_Sub :: "time \<Rightarrow> time \<Rightarrow> duration" where
  "time_Sub t u = max minDuration (min maxDuration (t - u))"

definition time_After :: "time \<Rightarrow> time \<Rightarrow> bool" where
  "time_After t u = (u < t)"

text \<open>\<open>Duration.Minutes\<close>; a \<open>float64\<close> is modelled by the real number it stands for.\<close>

definition Minutes :: "duration \<Rightarrow> real" where
  "Minutes d = real_of_int d / 60000000000"

section \<open>Player\<close>

record Player =
  ID :: string
  Name :: string
  SessionID :: string
  CurrentPos :: int
  TypedInput :: string
  StartTime :: time
  EndTime :: time
  IsFinished :: bool
  WPM :: real
  Accuracy :: real
  CorrectChars :: int
  TotalChars :: int
  LastUpdate :: time

text \<open>
  The \<open>float64\<close> fields \<open>WPM\<close> and \<open>Accuracy\<close> are real numbers. The \<open>int\<close> fields are
  lengths of strings and counts of bytes, which do not reach the ends of 64 bits: they are
  integers without a bound. A string is the list of its bytes, as \<open>len\<close> and indexing see it.

  \<open>NewPlayer\<close> reads the clock twice: for \<open>StartTime\<close>, then for \<open>LastUpdate\<close>.
\<close>

definition NewPlayer :: "string \<Rightarrow> string \<Rightarrow> string \<Rightarrow> time \<Rightarrow> time \<Rightarrow> Player" where
  "NewPlayer ident name sessionID now1 now2 =
     \<lparr>ID = ident, Name = name, SessionID = sessionID, CurrentPos = 0, TypedInput = [],
      StartTime = now1, EndTime = zeroTime, IsFinished = False, WPM = 0, Accuracy = 0,
      CorrectChars = 0, TotalChars = 0, LastUpdate = now2\<rparr>"

text \<open>
  The loop of \<open>calculateAccuracy\<close>: \<open>for i := 0; i < total; i++\<close>, counting in \<open>correct\<close>
  the positions at which the typed byte equals the prompt's. Both index guards of the
  source are kept.
\<close>

function countCorrect :: "string \<Rightarrow> string \<Rightarrow> nat \<Rightarrow> nat \<Rightarrow> nat \<Rightarrow> nat" where
  "countCorrect typed prompt ntotal i correct =
     (if i < ntotal
      then countCorrect typed prompt ntotal (Suc i)
             (if i < length typed \<and> i < length prompt \<and> typed ! i = prompt ! i
              then Suc correct else correct)
      else correct)"
  by pat_completeness auto
termination
  by (relation "measure (\<lambda>(typed, prompt, ntotal, i, correct). ntotal - i)") auto

declare countCorrect.simps [simp del]

definition calculateAccuracy :: "Player \<Rightarrow> string \<Rightarrow> Player" where
  "calculateAccuracy p prompt =
     (if length prompt = 0 then p\<lparr>Accuracy := 0\<rparr>
      else
        (let ntotal = length (TypedInput p);
             ntotal = (if ntotal > length prompt then length prompt else ntotal);
             correct = countCorrect (TypedInput p) prompt ntotal 0 0;
             p = p\<lparr>CorrectChars := int correct, TotalChars := int ntotal\<rparr>
         in if ntotal > 0
            then p\<lparr>Accuracy := real correct / real ntotal * 100\<rparr>
            else p\<lparr>Accuracy := 0\<rparr>))"

text \<open>
  \<open>calculateWPM\<close>: a finished player is measured from \<open>StartTime\<close> to \<open>EndTime\<close>, an
  unfinished one from \<open>StartTime\<close> to the clock reading \<open>now\<close> (\<open>time.Since\<close>); the clock
  is read in the second branch only.
\<close>

definition calculateWPM :: "Player \<Rightarrow> time \<Rightarrow> Player" where
  "calculateWPM p now =
     (if IsFinished p
      then (let elapsed = Minutes (time_Sub (EndTime p) (StartTime p))
            in if elapsed > 0 then p\<lparr>WPM := real_of_int (CorrectChars p) / 5 / elapsed\<rparr> else p)
      else (let elapsed = Minutes (time_Sub now (StartTime p))
            in if elapsed > 0 then p\<lparr>WPM := real_of_int (CorrectChars p) / 5 / elapsed\<rparr> else p))"

text \<open>\<open>UpdateProgress\<close> reads the clock for \<open>LastUpdate\<close> (\<open>now1\<close>), then inside \<open>calculateWPM\<close> (\<open>now2\<close>).\<close>

definition UpdateProgress :: "Player \<Rightarrow> string \<Rightarrow> string \<Rightarrow> time \<Rightarrow> time \<Rightarrow> Player" where
  "UpdateProgress p typedInput prompt now1 now2 =
     calculateWPM
       (calculateAccuracy
          (p\<lparr>TypedInput := typedInput, CurrentPos := int (length typedInput), LastUpdate := now1\<rparr>)
          prompt)
       now2"

text \<open>
  \<open>Finish\<close> has no guard: it sets the flag, stores the clock reading and recomputes the
  WPM, which takes the finished branch and reads no clock.
\<close>

definition Finish :: "Player \<Rightarrow> time \<Rightarrow> Player" where
  "Finish p now = calculateWPM (p\<lparr>IsFinished := True, EndTime := now\<rparr>) now"

definition GetProgress :: "Player \<Rightarrow> int \<Rightarrow> real" where
  "GetProgress p promptLength =
     (if promptLength = 0 then 0
      else real_of_int (CurrentPos p) / real_of_int promptLength * 100)"

definition IsComplete :: "Player \<Rightarrow> int \<Rightarrow> bool" where
  "IsComplete p promptLength = (CurrentPos p \<ge> promptLength)"

text \<open>
  The states a \<open>Player\<close> takes: made by \<open>NewPlayer\<close>, then changed by its own methods and
  by the assignments to \<open>SessionID\<close> that the manager makes.
\<close>

inductive Player_reachable :: "Player \<Rightarrow> bool" where
  new: "Player_reachable (NewPlayer ident name sessionID now1 now2)"
| upd: "Player_reachable p \<Longrightarrow> Player_reachable (UpdateProgress p typedInput prompt now1 now2)"
| fin: "Player_reachable p \<Longrightarrow> Player_reachable (Finish p now)"
| sid: "Player_reachable p \<Longrightarrow> Player_reachable (p\<lparr>SessionID := sessionID\<rparr>)"

section \<open>Errors\<close>

text \<open>
  Every error of the game package is an \<open>fmt.Errorf\<close> of a fixed message; one constructor
  for each message.
\<close>

datatype error =
    AlreadyExists
  | PlayerNotFound
  | LobbyNotFound
  | LobbyFull
  | NotEnoughPlayers
  | PlayerNotInSession
  | SessionFull
  | SessionStarted
  | AlreadyStarted
  | NotEnoughPlayersToStart

fun message :: "error \<Rightarrow> string" where
  "message AlreadyExists = ''player already exists''"
| "message PlayerNotFound = ''player not found''"
| "message LobbyNotFound = ''lobby not found''"
| "message LobbyFull = ''lobby is full''"
| "message NotEnoughPlayers = ''not enough players to start session''"
| "message PlayerNotInSession = ''player not in any session''"
| "message SessionFull = ''session is full''"
| "message SessionStarted = ''session has already started''"
| "message AlreadyStarted = ''session is already active''"
| "message NotEnoughPlayersToStart = ''not enough players to start''"

section \<open>The store of Player objects\<close>

text \<open>
  The registries hold \<open>*Player\<close> pointers, and one \<open>Player\<close> object can be in the manager's
  registry, in lobbies and in sessions at once. A pointer is an address \<open>ref\<close>, and the
  objects live in a store, which every function that reads or writes a \<open>Player\<close> through a
  pointer takes (and returns when it writes).

  A Go map is an association list with distinct keys: \<open>m[k]\<close> is \<open>map_of\<close>, \<open>m[k] = v\<close> is
  \<open>AList.update\<close>, \<open>delete(m, k)\<close> is \<open>AList.delete\<close>, \<open>len(m)\<close> is the length of the list. Go
  leaves the order of a \<open>range\<close> over a map open; here it is the order of the list, and
  what is proved of all lists holds for every order.

  Each function below is the effect of one call that runs from its first statement to
  its last with no other call in between. A method of \<open>Lobby\<close>, \<open>Session\<close> or \<open>Manager\<close>
  holds the lock of its receiver only (\<open>Manager.UpdatePlayerProgress\<close> for its first
  lookup only), so two methods of one receiver never overlap, but a method of the
  manager that reads or writes \<open>lobby.Players\<close> itself (\<open>JoinLobby\<close>,
  \<open>StartSessionFromLobby\<close>) can overlap a method of that lobby: the two parts of
  \<open>JoinLobby\<close> between which \<open>Lobby.AddPlayer\<close> can run are given after it.
\<close>

type_synonym ref = nat
type_synonym heap = "ref \<Rightarrow> Player"

section \<open>Session\<close>

record Session =
  ID :: string
  Prompt :: string
  Author :: string
  Players :: "(string \<times> ref) list"
  MaxPlayers :: int
  StartTime :: time
  EndTime :: time
  IsActive :: bool
  IsFinished :: bool
  Countdown :: int

definition NewSession :: "string \<Rightarrow> string \<Rightarrow> string \<Rightarrow> int \<Rightarrow> Session" where
  "NewSession ident prompt author maxPlayers =
     \<lparr>ID = ident, Prompt = prompt, Author = author, Players = [], MaxPlayers = maxPlayers,
      StartTime = zeroTime, EndTime = zeroTime, IsActive = False, IsFinished = False,
      Countdown = 0\<rparr>"

definition Session_AddPlayer :: "heap \<Rightarrow> Session \<Rightarrow> ref \<Rightarrow> error + Session" where
  "Session_AddPlayer h s player =
     (if int (length (Session.Players s)) \<ge> Session.MaxPlayers s then Inl SessionFull
      else if IsActive s then Inl SessionStarted
      else Inr (s\<lparr>Session.Players :=
                   AList.update (Player.ID (h player)) player (Session.Players s)\<rparr>))"

definition Session_RemovePlayer :: "Session \<Rightarrow> string \<Rightarrow> Session" where
  "Session_RemovePlayer s playerID =
     s\<lparr>Session.Players := AList.delete playerID (Session.Players s)\<rparr>"

definition Session_GetPlayer :: "Session \<Rightarrow> string \<Rightarrow> ref option" where
  "Session_GetPlayer s playerID = map_of (Session.Players s) playerID"

definition Session_GetPlayers :: "Session \<Rightarrow> ref list" where
  "Session_GetPlayers s = map snd (Session.Players s)"

definition Session_IsReady :: "Session \<Rightarrow> bool" where
  "Session_IsReady s = (length (Session.Players s) \<ge> 2 \<and> \<not> IsActive s)"

text \<open>
  \<open>Start\<close> also spawns \<open>runCountdown\<close>, which writes 3, 2, 1 and then 0 to \<open>Countdown\<close>, a
  second apart, each write under the session's lock: one write is \<open>Session_setCountdown\<close>.
\<close>

definition Session_Start :: "Session \<Rightarrow> time \<Rightarrow> error + Session" where
  "Session_Start s now =
     (if IsActive s then Inl AlreadyStarted
      else if length (Session.Players s) < 2 then Inl NotEnoughPlayersToStart
      else Inr (s\<lparr>IsActive := True, Session.StartTime := now, Countdown := 3\<rparr>))"

definition Session_setCountdown :: "Session \<Rightarrow> int \<Rightarrow> Session" where
  "Session_setCountdown s i = s\<lparr>Countdown := i\<rparr>"

text \<open>The loop of \<open>checkCompletion\<close>, which stops at the first unfinished player.\<close>

fun allFinished :: "heap \<Rightarrow> (string \<times> ref) list \<Rightarrow> bool" where
  "allFinished h [] = True"
| "allFinished h ((k, player) # rest) =
     (if \<not> Player.IsFinished (h player) then False else allFinished h rest)"

definition checkCompletion :: "heap \<Rightarrow> Session \<Rightarrow> time \<Rightarrow> Session" where
  "checkCompletion h s now =
     (if Session.IsFinished s then s
      else if allFinished h (Session.Players s)
      then s\<lparr>Session.IsFinished := True, Session.EndTime := now\<rparr>
      else s)"

text \<open>
  \<open>UpdatePlayerProgress\<close> reads the clock up to four times: twice in \<open>UpdateProgress\<close>, in
  \<open>Finish\<close> and in \<open>checkCompletion\<close>.
\<close>

definition Session_UpdatePlayerProgress ::
  "heap \<Rightarrow> Session \<Rightarrow> string \<Rightarrow> string \<Rightarrow> time \<Rightarrow> time \<Rightarrow> time \<Rightarrow> time \<Rightarrow> heap \<times> Session" where
  "Session_UpdatePlayerProgress h s playerID typedInput now1 now2 now3 now4 =
     (case map_of (Session.Players s) playerID of
        None \<Rightarrow> (h, s)
      | Some player \<Rightarrow>
          (let h = h(player := UpdateProgress (h player) typedInput (Prompt s) now1 now2);
               h = (if IsComplete (h player) (int (length (Prompt s))) \<and>
                       \<not> Player.IsFinished (h player)
                    then h(player := Finish (h player) now3) else h)
           in (h, checkCompletion h s now4)))"

text \<open>
  The two loops of \<open>GetLeaderboard\<close> over the slice \<open>ps\<close> of pointers:
  \<open>for j := i + 1; j < len(ps); j++\<close> inside \<open>for i := 0; i < len(ps); i++\<close>. The swap
  \<open>ps[i], ps[j] = ps[j], ps[i]\<close> is \<open>ps[i := ps ! j, j := ps ! i]\<close>; the loops keep
  \<open>i < j < len(ps)\<close>, so every read is in range.
\<close>

function leaderboardInner :: "heap \<Rightarrow> ref list \<Rightarrow> nat \<Rightarrow> nat \<Rightarrow> ref list" where
  "leaderboardInner h ps i j =
     (if j < length ps
      then leaderboardInner h
             (if Player.IsFinished (h (ps ! i)) \<and> Player.IsFinished (h (ps ! j))
              then (if time_After (Player.EndTime (h (ps ! i))) (Player.EndTime (h (ps ! j)))
                    then ps[i := ps ! j, j := ps ! i] else ps)
              else if Player.IsFinished (h (ps ! i)) \<and> \<not> Player.IsFinished (h (ps ! j))
              then ps[i := ps ! j, j := ps ! i]
              else ps)
             i (Suc j)
      else ps)"
  by pat_completeness auto
termination
  by (relation "measure (\<lambda>(h, ps, i, j). length ps - j)") auto

declare leaderboardInner.simps [simp del]

function leaderboardOuter :: "heap \<Rightarrow> ref list \<Rightarrow> nat \<Rightarrow> ref list" where
  "leaderboardOuter h ps i =
     (if i < length ps then leaderboardOuter h (leaderboardInner h ps i (Suc i)) (Suc i) else ps)"
  by pat_completeness auto
termination
proof (relation "measure (\<lambda>(h, ps, i). length ps - i)")
  show "wf (measure (\<lambda>(h, ps, i). length ps - i))"
    by simp
next
  fix h :: heap and ps :: "ref list" and i :: nat
  assume "i < length ps"
  have len: "length (leaderboardInner h qs i j) = length qs" for qs j
  proof (induction h qs i j rule: leaderboardInner.induct)
    case (1 h qs i j)
    then show ?case
      by (subst leaderboardInner.simps) (simp split: if_splits)
  qed
  show "((h, leaderboardInner h ps i (Suc i), Suc i), (h, ps, i))
          \<in> measure (\<lambda>(h, ps, i). length ps - i)"
    using \<open>i < length ps\<close> by (simp add: len)
qed

declare leaderboardOuter.simps [simp del]

definition GetLeaderboard :: "heap \<Rightarrow> Session \<Rightarrow> ref list" where
  "GetLeaderboard h s = leaderboardOuter h (map snd (Session.Players s)) 0"

text \<open>
  The order that the two loops establish: \<open>a\<close> may stand before \<open>b\<close> when \<open>a\<close> is not
  finished, or when both are finished and \<open>a\<close> did not end later than \<open>b\<close>. The inner loop
  swaps \<open>ps ! i\<close> and \<open>ps ! j\<close> exactly when \<open>ps ! i\<close> may not stand before \<open>ps ! j\<close>.
\<close>

definition standsBefore :: "heap \<Rightarrow> ref \<Rightarrow> ref \<Rightarrow> bool" where
  "standsBefore h a b =
     (\<not> Player.IsFinished (h a) \<or>
      (Player.IsFinished (h b) \<and> Player.EndTime (h a) \<le> Player.EndTime (h b)))"

text \<open>
  The invariant of the outer loop: every position before \<open>i\<close> holds a player that may
  stand before every player at a later position.
\<close>

definition placed :: "heap \<Rightarrow> nat \<Rightarrow> ref list \<Rightarrow> bool" where
  "placed h i ps = (\<forall>a b. a < i \<and> a < b \<and> b < length ps \<longrightarrow> standsBefore h (ps ! a) (ps ! b))"

section \<open>Lobby\<close>

record Lobby =
  ID :: string
  Players :: "(string \<times> ref) list"
  MaxPlayers :: int
  CreatedAt :: time

definition Lobby_AddPlayer :: "heap \<Rightarrow> Lobby \<Rightarrow> ref \<Rightarrow> error + Lobby" where
  "Lobby_AddPlayer h l player =
     (if int (length (Lobby.Players l)) \<ge> Lobby.MaxPlayers l then Inl LobbyFull
      else Inr (l\<lparr>Lobby.Players :=
                   AList.update (Player.ID (h player)) player (Lobby.Players l)\<rparr>))"

definition Lobby_RemovePlayer :: "Lobby \<Rightarrow> string \<Rightarrow> Lobby" where
  "Lobby_RemovePlayer l playerID =
     l\<lparr>Lobby.Players := AList.delete playerID (Lobby.Players l)\<rparr>"

definition Lobby_GetPlayers :: "Lobby \<Rightarrow> ref list" where
  "Lobby_GetPlayers l = map snd (Lobby.Players l)"

definition Lobby_IsReady :: "Lobby \<Rightarrow> bool" where
  "Lobby_IsReady l = (length (Lobby.Players l) \<ge> 2)"

section \<open>Manager\<close>

text \<open>
  The quote fetcher, the UUID generator and the allocator are outside the game package:
  the quote that \<open>FetchRandomQuoteWithFallback\<close> returns, the string that
  \<open>uuid.New().String()\<close> returns and the address of the object that \<open>NewPlayer\<close> allocates
  are parameters of the functions that ask for them.
\<close>

text \<open>
  Modelled from the spec: \<open>uuid.New()\<close> belongs to the package \<open>github.com/google/uuid\<close>,
  which is not in the repository. The spec has \<open>createLobby\<close> assign a fresh id: a source
  of identifiers, asked while the identifiers \<open>used\<close> are in use, returns one that is
  none of them. Nothing else is asked of a source.
\<close>

typedef uuid_source = "{g :: string set \<Rightarrow> string. \<forall>used. finite used \<longrightarrow> g used \<notin> used}"
proof
  have "(SOME u :: string. u \<notin> used) \<notin> used" if "finite used" for used
  proof -
    from that obtain u :: string where "u \<notin> used"
      using infinite_UNIV_listI ex_new_if_finite by blast
    then show ?thesis
      by (rule someI [of "\<lambda>u. u \<notin> used"])
  qed
  then show "(\<lambda>used. SOME u :: string. u \<notin> used)
      \<in> {g :: string set \<Rightarrow> string. \<forall>used. finite used \<longrightarrow> g used \<notin> used}"
    by simp
qed

definition new_uuid :: "uuid_source \<Rightarrow> string set \<Rightarrow> string" where
  "new_uuid g used = Rep_uuid_source g used"

record Quote =
  Content :: string
  Author :: string

record Manager =
  sessions :: "(string \<times> Session) list"
  players :: "(string \<times> ref) list"
  lobbies :: "(string \<times> Lobby) list"

definition NewManager :: Manager where
  "NewManager = \<lparr>sessions = [], players = [], lobbies = []\<rparr>"

text \<open>The identifiers in use: the keys of the lobby registry and of the session registry.\<close>

definition Manager_ids :: "Manager \<Rightarrow> string set" where
  "Manager_ids m = fst ` set (lobbies m) \<union> fst ` set (sessions m)"

definition Manager_AddPlayer ::
  "heap \<Rightarrow> Manager \<Rightarrow> ref \<Rightarrow> string \<Rightarrow> string \<Rightarrow> time \<Rightarrow> time \<Rightarrow> error + (heap \<times> Manager \<times> ref)" where
  "Manager_AddPlayer h m player playerID playerName now1 now2 =
     (if map_of (players m) playerID \<noteq> None then Inl AlreadyExists
      else Inr (h(player := NewPlayer playerID playerName [] now1 now2),
                m\<lparr>players := AList.update playerID player (players m)\<rparr>,
                player))"

text \<open>
  The two loops of \<open>RemovePlayer\<close>: the player leaves every session and every lobby, and
  each one that is then empty is deleted from its registry.
\<close>

fun removeFromSessions :: "string \<Rightarrow> (string \<times> Session) list \<Rightarrow> (string \<times> Session) list" where
  "removeFromSessions playerID [] = []"
| "removeFromSessions playerID ((sessionID, session) # rest) =
     (let session = Session_RemovePlayer session playerID
      in if length (Session_GetPlayers session) = 0
         then removeFromSessions playerID rest
         else (sessionID, session) # removeFromSessions playerID rest)"

fun removeFromLobbies :: "string \<Rightarrow> (string \<times> Lobby) list \<Rightarrow> (string \<times> Lobby) list" where
  "removeFromLobbies playerID [] = []"
| "removeFromLobbies playerID ((lobbyID, lobby) # rest) =
     (let lobby = Lobby_RemovePlayer lobby playerID
      in if length (Lobby_GetPlayers lobby) = 0
         then removeFromLobbies playerID rest
         else (lobbyID, lobby) # removeFromLobbies playerID rest)"

definition Manager_RemovePlayer :: "Manager \<Rightarrow> string \<Rightarrow> Manager" where
  "Manager_RemovePlayer m playerID =
     m\<lparr>sessions := removeFromSessions playerID (sessions m),
       lobbies := removeFromLobbies playerID (lobbies m),
       players := AList.delete playerID (players m)\<rparr>"

definition Manager_GetPlayer :: "Manager \<Rightarrow> string \<Rightarrow> ref option" where
  "Manager_GetPlayer m playerID = map_of (players m) playerID"

text \<open>\<open>CreateLobby\<close> has no failing path: its error result is always \<open>nil\<close>.\<close>

definition Manager_CreateLobby ::
  "Manager \<Rightarrow> int \<Rightarrow> string \<Rightarrow> time \<Rightarrow> error + (Manager \<times> Lobby)" where
  "Manager_CreateLobby m maxPlayers uuid now =
     (let lobbyID = uuid;
          lobby = \<lparr>Lobby.ID = lobbyID, Lobby.Players = [], Lobby.MaxPlayers = maxPlayers,
                   CreatedAt = now\<rparr>
      in Inr (m\<lparr>lobbies := AList.update lobbyID lobby (lobbies m)\<rparr>, lobby))"

text \<open>
  A registry holds pointers to its lobbies and sessions: a method that changes one in
  place changes the entry of the registry under the key it was found at.
\<close>

definition Manager_JoinLobby ::
  "heap \<Rightarrow> Manager \<Rightarrow> string \<Rightarrow> string \<Rightarrow> error + (heap \<times> Manager)" where
  "Manager_JoinLobby h m playerID lobbyID =
     (case map_of (players m) playerID of
        None \<Rightarrow> Inl PlayerNotFound
      | Some player \<Rightarrow>
          (case map_of (lobbies m) lobbyID of
             None \<Rightarrow> Inl LobbyNotFound
           | Some lobby \<Rightarrow>
               if int (length (Lobby.Players lobby)) \<ge> Lobby.MaxPlayers lobby then Inl LobbyFull
               else
                 (let lobby = lobby\<lparr>Lobby.Players :=
                                AList.update playerID player (Lobby.Players lobby)\<rparr>;
                      h = h(player := (h player)\<lparr>SessionID := lobbyID\<rparr>)
                  in Inr (h, m\<lparr>lobbies := AList.update lobbyID lobby (lobbies m)\<rparr>))))"

text \<open>
  The two parts of \<open>JoinLobby\<close>. The first looks the player and the lobby up and tests the
  capacity; the second stores the player in the lobby and the lobby's id in the player.
  The manager's lock is held throughout, so the lobby is still in the registry when the
  second part runs; the lobby's lock is not taken, so the methods of the lobby can run in
  between.
\<close>

definition Manager_JoinLobby_test :: "Manager \<Rightarrow> string \<Rightarrow> string \<Rightarrow> error + ref" where
  "Manager_JoinLobby_test m playerID lobbyID =
     (case map_of (players m) playerID of
        None \<Rightarrow> Inl PlayerNotFound
      | Some player \<Rightarrow>
          (case map_of (lobbies m) lobbyID of
             None \<Rightarrow> Inl LobbyNotFound
           | Some lobby \<Rightarrow>
               if int (length (Lobby.Players lobby)) \<ge> Lobby.MaxPlayers lobby then Inl LobbyFull
               else Inr player))"

definition Manager_JoinLobby_store ::
  "heap \<Rightarrow> Manager \<Rightarrow> string \<Rightarrow> string \<Rightarrow> ref \<Rightarrow> heap \<times> Manager" where
  "Manager_JoinLobby_store h m playerID lobbyID player =
     (case map_of (lobbies m) lobbyID of
        None \<Rightarrow> (h, m)
      | Some lobby \<Rightarrow>
          (let lobby = lobby\<lparr>Lobby.Players :=
                         AList.update playerID player (Lobby.Players lobby)\<rparr>;
               h = h(player := (h player)\<lparr>SessionID := lobbyID\<rparr>)
           in (h, m\<lparr>lobbies := AList.update lobbyID lobby (lobbies m)\<rparr>)))"

definition Manager_LeaveLobby :: "Manager \<Rightarrow> string \<Rightarrow> string \<Rightarrow> Manager" where
  "Manager_LeaveLobby m playerID lobbyID =
     (case map_of (lobbies m) lobbyID of
        None \<Rightarrow> m
      | Some lobby \<Rightarrow>
          (let lobby = Lobby_RemovePlayer lobby playerID
           in if length (Lobby_GetPlayers lobby) = 0
              then m\<lparr>lobbies := AList.delete lobbyID (lobbies m)\<rparr>
              else m\<lparr>lobbies := AList.update lobbyID lobby (lobbies m)\<rparr>))"

text \<open>
  The loop of \<open>StartSessionFromLobby\<close> over the lobby's players; the error that
  \<open>session.AddPlayer\<close> may return is dropped, as in the source.
\<close>

fun addLobbyPlayers :: "heap \<Rightarrow> Session \<Rightarrow> string \<Rightarrow> (string \<times> ref) list \<Rightarrow> heap \<times> Session" where
  "addLobbyPlayers h session sessionID [] = (h, session)"
| "addLobbyPlayers h session sessionID ((k, player) # rest) =
     (let h = h(player := (h player)\<lparr>SessionID := sessionID\<rparr>);
          session = (case Session_AddPlayer h session player of
                       Inl e \<Rightarrow> session | Inr session' \<Rightarrow> session')
      in addLobbyPlayers h session sessionID rest)"

definition Manager_StartSessionFromLobby ::
  "heap \<Rightarrow> Manager \<Rightarrow> string \<Rightarrow> Quote \<Rightarrow> string \<Rightarrow> error + (heap \<times> Manager \<times> Session)" where
  "Manager_StartSessionFromLobby h m lobbyID quote uuid =
     (case map_of (lobbies m) lobbyID of
        None \<Rightarrow> Inl LobbyNotFound
      | Some lobby \<Rightarrow>
          if length (Lobby.Players lobby) < 2 then Inl NotEnoughPlayers
          else
            (let sessionID = uuid;
                 session = NewSession sessionID (Content quote) (Quote.Author quote)
                             (Lobby.MaxPlayers lobby);
                 (h, session) = addLobbyPlayers h session sessionID (Lobby.Players lobby)
             in Inr (h,
                     m\<lparr>sessions := AList.update sessionID session (sessions m),
                       lobbies := AList.delete lobbyID (lobbies m)\<rparr>,
                     session)))"

definition Manager_GetSession :: "Manager \<Rightarrow> string \<Rightarrow> Session option" where
  "Manager_GetSession m sessionID = map_of (sessions m) sessionID"

definition Manager_GetLobby :: "Manager \<Rightarrow> string \<Rightarrow> Lobby option" where
  "Manager_GetLobby m lobbyID = map_of (lobbies m) lobbyID"

text \<open>
  \<open>UpdatePlayerProgress\<close> first indexes the session registry with the player's id; only
  when there is no session under that key does it look, in the order of the \<open>range\<close>, for the
  first session whose roster has the player.
\<close>

fun findSession :: "string \<Rightarrow> (string \<times> Session) list \<Rightarrow> (string \<times> Session) option" where
  "findSession playerID [] = None"
| "findSession playerID ((k, s) # rest) =
     (if Session_GetPlayer s playerID \<noteq> None then Some (k, s) else findSession playerID rest)"

definition Manager_UpdatePlayerProgress ::
  "heap \<Rightarrow> Manager \<Rightarrow> string \<Rightarrow> string \<Rightarrow> time \<Rightarrow> time \<Rightarrow> time \<Rightarrow> time \<Rightarrow> error + (heap \<times> Manager)" where
  "Manager_UpdatePlayerProgress h m playerID typedInput now1 now2 now3 now4 =
     (let session = (case map_of (sessions m) playerID of
                       Some s \<Rightarrow> Some (playerID, s)
                     | None \<Rightarrow> findSession playerID (sessions m))
      in case session of
           None \<Rightarrow> Inl PlayerNotInSession
         | Some (k, s) \<Rightarrow>
             (let (h, s) = Session_UpdatePlayerProgress h s playerID typedInput now1 now2 now3 now4
              in Inr (h, m\<lparr>sessions := AList.update k s (sessions m)\<rparr>)))"

section \<open>Calls that follow one another\<close>

text \<open>
  The calls that reach a manager: its own methods, and the methods of the lobbies and
  sessions that \<open>GetLobby\<close> and \<open>GetSession\<close> hand out. A call that returns an error leaves
  the state as it was. \<open>exec\<close> is the effect of a call that no other call overlaps.
\<close>

datatype op =
    AddPlayerOp ref string string time time
  | RemovePlayerOp string
  | CreateLobbyOp int string time
  | JoinLobbyOp string string
  | LeaveLobbyOp string string
  | StartSessionFromLobbyOp string Quote string
  | UpdatePlayerProgressOp string string time time time time
  | LobbyAddPlayerOp string ref
  | LobbyRemovePlayerOp string string
  | SessionAddPlayerOp string ref
  | SessionRemovePlayerOp string string
  | SessionStartOp string time
  | SessionCountdownOp string int
  | SessionUpdatePlayerProgressOp string string string time time time time

fun exec :: "op \<Rightarrow> heap \<times> Manager \<Rightarrow> heap \<times> Manager" where
  "exec (AddPlayerOp player playerID playerName now1 now2) (h, m) =
     (case Manager_AddPlayer h m player playerID playerName now1 now2 of
        Inl e \<Rightarrow> (h, m) | Inr (h', m', p) \<Rightarrow> (h', m'))"
| "exec (RemovePlayerOp playerID) (h, m) = (h, Manager_RemovePlayer m playerID)"
| "exec (CreateLobbyOp maxPlayers uuid now) (h, m) =
     (case Manager_CreateLobby m maxPlayers uuid now of
        Inl e \<Rightarrow> (h, m) | Inr (m', l) \<Rightarrow> (h, m'))"
| "exec (JoinLobbyOp playerID lobbyID) (h, m) =
     (case Manager_JoinLobby h m playerID lobbyID of Inl e \<Rightarrow> (h, m) | Inr hm \<Rightarrow> hm)"
| "exec (LeaveLobbyOp playerID lobbyID) (h, m) = (h, Manager_LeaveLobby m playerID lobbyID)"
| "exec (StartSessionFromLobbyOp lobbyID quote uuid) (h, m) =
     (case Manager_StartSessionFromLobby h m lobbyID quote uuid of
        Inl e \<Rightarrow> (h, m) | Inr (h', m', s) \<Rightarrow> (h', m'))"
| "exec (UpdatePlayerProgressOp playerID typedInput now1 now2 now3 now4) (h, m) =
     (case Manager_UpdatePlayerProgress h m playerID typedInput now1 now2 now3 now4 of
        Inl e \<Rightarrow> (h, m) | Inr hm \<Rightarrow> hm)"
| "exec (LobbyAddPlayerOp lobbyID player) (h, m) =
     (case Manager_GetLobby m lobbyID of
        None \<Rightarrow> (h, m)
      | Some l \<Rightarrow>
          (case Lobby_AddPlayer h l player of
             Inl e \<Rightarrow> (h, m)
           | Inr l' \<Rightarrow> (h, m\<lparr>lobbies := AList.update lobbyID l' (lobbies m)\<rparr>)))"
| "exec (LobbyRemovePlayerOp lobbyID playerID) (h, m) =
     (case Manager_GetLobby m lobbyID of
        None \<Rightarrow> (h, m)
      | Some l \<Rightarrow>
          (h, m\<lparr>lobbies := AList.update lobbyID (Lobby_RemovePlayer l playerID) (lobbies m)\<rparr>))"
| "exec (SessionAddPlayerOp sessionID player) (h, m) =
     (case Manager_GetSession m sessionID of
        None \<Rightarrow> (h, m)
      | Some s \<Rightarrow>
          (case Session_AddPlayer h s player of
             Inl e \<Rightarrow> (h, m)
           | Inr s' \<Rightarrow> (h, m\<lparr>sessions := AList.update sessionID s' (sessions m)\<rparr>)))"
| "exec (SessionRemovePlayerOp sessionID playerID) (h, m) =
     (case Manager_GetSession m sessionID of
        None \<Rightarrow> (h, m)
      | Some s \<Rightarrow>
          (h, m\<lparr>sessions := AList.update sessionID (Session_RemovePlayer s playerID) (sessions m)\<rparr>))"
| "exec (SessionStartOp sessionID now) (h, m) =
     (case Manager_GetSession m sessionID of
        None \<Rightarrow> (h, m)
      | Some s \<Rightarrow>
          (case Session_Start s now of
             Inl e \<Rightarrow> (h, m)
           | Inr s' \<Rightarrow> (h, m\<lparr>sessions := AList.update sessionID s' (sessions m)\<rparr>)))"
| "exec (SessionCountdownOp sessionID i) (h, m) =
     (case Manager_GetSession m sessionID of
        None \<Rightarrow> (h, m)
      | Some s \<Rightarrow>
          (h, m\<lparr>sessions := AList.update sessionID (Session_setCountdown s i) (sessions m)\<rparr>))"
| "exec (SessionUpdatePlayerProgressOp sessionID playerID typedInput now1 now2 now3 now4) (h, m) =
     (case Manager_GetSession m sessionID of
        None \<Rightarrow> (h, m)
      | Some s \<Rightarrow>
          (let (h, s) = Session_UpdatePlayerProgress h s playerID typedInput now1 now2 now3 now4
           in (h, m\<lparr>sessions := AList.update sessionID s (sessions m)\<rparr>)))"

text \<open>The addresses that a manager holds: in its registry, in its lobbies, in its sessions.\<close>

definition refs :: "Manager \<Rightarrow> ref set" where
  "refs m = snd ` set (players m)
     \<union> (\<Union>(k, l) \<in> set (lobbies m). snd ` set (Lobby.Players l))
     \<union> (\<Union>(k, s) \<in> set (sessions m). snd ` set (Session.Players s))"

text \<open>
  \<open>NewPlayer\<close> allocates: the address of the new object is none that the manager holds.
  The countdown of a session writes 3, 2, 1 and 0, and only once \<open>Start\<close> has made the
  session active.
\<close>

fun allowed :: "op \<Rightarrow> heap \<times> Manager \<Rightarrow> bool" where
  "allowed (AddPlayerOp player playerID playerName now1 now2) (h, m) = (player \<notin> refs m)"
| "allowed (SessionCountdownOp sessionID i) (h, m) =
     (i \<in> {0, 1, 2, 3} \<and>
      (case Manager_GetSession m sessionID of None \<Rightarrow> False | Some s \<Rightarrow> IsActive s))"
| "allowed uu (h, m) = True"

text \<open>
  The states of the runs in which each call ends before the next one begins. The program
  reaches every one of them; it also reaches states that are none of them, when a call
  on a lobby overlaps another (see \<open>ex_overlap\<close>).
\<close>

inductive serial :: "heap \<times> Manager \<Rightarrow> bool" where
  init: "serial (h, NewManager)"
| step: "serial hm \<Longrightarrow> allowed c hm \<Longrightarrow> serial (exec c hm)"

text \<open>
  What holds of the state of every such run: the keys of each registry are distinct, every
  player is stored under its own \<open>ID\<close>, a lobby has no more members than its capacity
  (than 0, when the capacity is negative) and a session no more than its capacity.
\<close>

definition roster_ok :: "heap \<Rightarrow> (string \<times> ref) list \<Rightarrow> bool" where
  "roster_ok h ps = (distinct (map fst ps) \<and> (\<forall>(k, r) \<in> set ps. Player.ID (h r) = k))"

definition Lobby_ok :: "heap \<Rightarrow> Lobby \<Rightarrow> bool" where
  "Lobby_ok h l =
     (roster_ok h (Lobby.Players l) \<and>
      int (length (Lobby.Players l)) \<le> max 0 (Lobby.MaxPlayers l))"

definition Session_ok :: "heap \<Rightarrow> Session \<Rightarrow> bool" where
  "Session_ok h s =
     (roster_ok h (Session.Players s) \<and>
      int (length (Session.Players s)) \<le> Session.MaxPlayers s)"

definition Manager_ok :: "heap \<Rightarrow> Manager \<Rightarrow> bool" where
  "Manager_ok h m =
     (roster_ok h (players m) \<and>
      distinct (map fst (lobbies m)) \<and> distinct (map fst (sessions m)) \<and>
      (\<forall>(k, l) \<in> set (lobbies m). Lobby_ok h l) \<and>
      (\<forall>(k, s) \<in> set (sessions m). Session_ok h s))"


section \<open>Example states\<close>

text \<open>
  Two players \<open>a\<close> and \<open>b\<close> at the addresses 1 and 2; the session \<open>s\<close> with the prompt
  \<open>cat\<close> that holds both and has not been started; the race in which \<open>a\<close> has typed
  the whole prompt and \<open>b\<close> nothing; a player that has typed \<open>cat\<close> against the
  prompt \<open>cat\<close>; a player finished one minute after its start.
\<close>

definition ex_heap :: heap where
  "ex_heap = (\<lambda>_. NewPlayer [] [] [] 0 0)
     (1 := NewPlayer ''a'' ''ann'' [] 1000 1000, 2 := NewPlayer ''b'' ''bob'' [] 1000 1000)"

definition ex_session :: Session where
  "ex_session =
     projr (Session_AddPlayer ex_heap
       (projr (Session_AddPlayer ex_heap (NewSession ''s'' ''cat'' ''anon'' 4) 1)) 2)"

definition ex_race :: "heap \<times> Session" where
  "ex_race = Session_UpdatePlayerProgress ex_heap ex_session ''a'' ''cat'' 2000 2000 2000 2000"

definition ex_typed :: Player where
  "ex_typed = UpdateProgress (NewPlayer ''p1'' ''ann'' [] 1000 1000) ''cat'' ''cat'' 2000 2000"

definition ex_finished :: Player where
  "ex_finished =
     Finish (UpdateProgress (NewPlayer ''a'' ''ann'' [] 0 0) ''cat'' ''cat''
               30000000000 30000000000) 60000000000"

subsection \<open>Runs of the manager\<close>

text \<open>A run of calls, and the test that each call of a run is allowed where it is made.\<close>

fun run :: "op list \<Rightarrow> heap \<times> Manager \<Rightarrow> heap \<times> Manager" where
  "run [] hm = hm"
| "run (c # cs) hm = run cs (exec c hm)"

fun allowed_run :: "op list \<Rightarrow> heap \<times> Manager \<Rightarrow> bool" where
  "allowed_run [] hm = True"
| "allowed_run (c # cs) hm = (allowed c hm \<and> allowed_run cs (exec c hm))"

text \<open>
  Identifiers as \<open>uuid.New().String()\<close> prints them, and the quote of a race. In
  \<open>ex_lobbies\<close> the players \<open>a\<close>, \<open>b\<close> and \<open>c\<close> are registered, \<open>a\<close> and \<open>b\<close> have joined
  the two lobbies of capacity 2 and a third lobby is empty. In \<open>ex_started\<close> the first
  lobby has become a session, and a player has then registered under the name that is
  the session's identifier. In \<open>ex_negative\<close> a lobby of capacity -1 has been created.
\<close>

definition ex_uuid1 :: string where
  "ex_uuid1 = ''7c9e6679-7425-40de-944b-e07fc1f90ae7''"

definition ex_uuid2 :: string where
  "ex_uuid2 = ''0e37df36-f698-11e6-8dd4-cb9ced3df976''"

definition ex_uuid3 :: string where
  "ex_uuid3 = ''16fd2706-8baf-433b-82eb-8c7fada847da''"

definition ex_uuid4 :: string where
  "ex_uuid4 = ''9a4f1c52-3b7e-4d10-a6c8-5e2f0b7d9c31''"

definition ex_quote :: Quote where
  "ex_quote = \<lparr>Content = ''cat'', Quote.Author = ''anon''\<rparr>"

definition ex_empty :: "heap \<times> Manager" where
  "ex_empty = (\<lambda>_. NewPlayer [] [] [] 0 0, NewManager)"

definition ex_lobbies :: "heap \<times> Manager" where
  "ex_lobbies =
     run [AddPlayerOp 1 ''a'' ''ann'' 1000 1000, AddPlayerOp 2 ''b'' ''bob'' 1000 1000,
          AddPlayerOp 3 ''c'' ''cyd'' 1000 1000,
          CreateLobbyOp 2 ex_uuid1 2000, CreateLobbyOp 2 ex_uuid2 2000,
          CreateLobbyOp 4 ex_uuid4 2000,
          JoinLobbyOp ''a'' ex_uuid1, JoinLobbyOp ''b'' ex_uuid1,
          JoinLobbyOp ''a'' ex_uuid2, JoinLobbyOp ''b'' ex_uuid2]
       ex_empty"

definition ex_started :: "heap \<times> Manager" where
  "ex_started =
     run [StartSessionFromLobbyOp ex_uuid1 ex_quote ex_uuid3,
          AddPlayerOp 4 ex_uuid3 ''eve'' 5000 5000]
       ex_lobbies"

definition ex_negative :: "heap \<times> Manager" where
  "ex_negative = run [CreateLobbyOp (- 1) ex_uuid1 2000] ex_empty"

text \<open>
  A lobby with one seat and an overlap on it. In \<open>ex_one_seat\<close> the players \<open>a\<close> and \<open>b\<close>
  are registered and the lobby of capacity 1 is empty. In \<open>ex_overlap\<close> a call
  \<open>JoinLobby(a)\<close> has tested the capacity in \<open>ex_one_seat\<close>, then a call
  \<open>lobby.AddPlayer(b)\<close> has run, then \<open>JoinLobby(a)\<close> has stored.
\<close>

definition ex_one_seat :: "heap \<times> Manager" where
  "ex_one_seat =
     run [AddPlayerOp 1 ''a'' ''ann'' 1000 1000, AddPlayerOp 2 ''b'' ''bob'' 1000 1000,
          CreateLobbyOp 1 ex_uuid1 2000]
       ex_empty"

definition ex_overlap :: "heap \<times> Manager" where
  "ex_overlap =
     Manager_JoinLobby_store
       (fst (exec (LobbyAddPlayerOp ex_uuid1 2) ex_one_seat))
       (snd (exec (LobbyAddPlayerOp ex_uuid1 2) ex_one_seat))
       ''a'' ex_uuid1 (projr (Manager_JoinLobby_test (snd ex_one_seat) ''a'' ex_uuid1))"

text \<open>The hand-off of the first lobby of \<open>ex_lobbies\<close>, and of the lobby of \<open>ex_overlap\<close>.\<close>

definition ex_crowded_hand_off :: "error + (heap \<times> Manager \<times> Session)" where
  "ex_crowded_hand_off =
     Manager_StartSessionFromLobby (fst ex_overlap) (snd ex_overlap) ex_uuid1 ex_quote ex_uuid3"

definition ex_hand_off :: "error + (heap \<times> Manager \<times> Session)" where
  "ex_hand_off =
     Manager_StartSessionFromLobby (fst ex_lobbies) (snd ex_lobbies) ex_uuid1 ex_quote ex_uuid3"


section \<open>Properties of Player\<close>

lemma countCorrect_bounds:
  "correct \<le> countCorrect typed prompt ntotal i correct \<and>
   countCorrect typed prompt ntotal i correct \<le> correct + (ntotal - i)"
proof (induction typed prompt ntotal i correct rule: countCorrect.induct)
  case (1 typed prompt ntotal i correct)
  show ?case
  proof (cases "i < ntotal")
    case True
    with "1" show ?thesis
      by (subst (1 2) countCorrect.simps) (auto split: if_splits)
  next
    case False
    then show ?thesis
      by (subst (1 2) countCorrect.simps) simp
  qed
qed

lemma countCorrect_take:
  "ntotal \<le> n \<Longrightarrow>
   countCorrect (take n typed) prompt ntotal i correct = countCorrect typed prompt ntotal i correct"
proof (induction typed prompt ntotal i correct rule: countCorrect.induct)
  case (1 typed prompt ntotal i correct)
  show ?case
  proof (cases "i < ntotal")
    case True
    with "1.prems" have "i < n" by simp
    then have c: "(i < length (take n typed) \<and> i < length prompt \<and> take n typed ! i = prompt ! i)
        = (i < length typed \<and> i < length prompt \<and> typed ! i = prompt ! i)"
      by auto
    have "countCorrect (take n typed) prompt ntotal i correct =
        countCorrect (take n typed) prompt ntotal (Suc i)
          (if i < length typed \<and> i < length prompt \<and> typed ! i = prompt ! i
           then Suc correct else correct)"
      using True by (subst countCorrect.simps) (simp only: c if_True)
    also have "\<dots> = countCorrect typed prompt ntotal (Suc i)
          (if i < length typed \<and> i < length prompt \<and> typed ! i = prompt ! i
           then Suc correct else correct)"
      using "1.IH" [OF True "1.prems"] .
    also have "\<dots> = countCorrect typed prompt ntotal i correct"
      using True by (subst (2) countCorrect.simps) simp
    finally show ?thesis .
  next
    case False
    then show ?thesis
      by (subst (1 2) countCorrect.simps) simp
  qed
qed


subsection \<open>Completion and the bytes beyond the prompt\<close>

lemma countCorrect_append:
  assumes "length prompt \<le> length typed"
  shows "countCorrect (typed @ extra) prompt (length prompt) 0 0 =
         countCorrect typed prompt (length prompt) 0 0"
  using countCorrect_take [of "length prompt" "length typed" "typed @ extra" prompt 0 0] assms
  by simp

lemma calculateAccuracy_extra:
  assumes "length prompt \<le> length typed" and "TypedInput p = typed"
  shows "calculateAccuracy (p\<lparr>TypedInput := typed @ extra, CurrentPos := c\<rparr>) prompt =
         (calculateAccuracy p prompt)\<lparr>TypedInput := typed @ extra, CurrentPos := c\<rparr>"
proof (cases "prompt = []")
  case True
  then show ?thesis by (simp add: calculateAccuracy_def)
next
  case False
  have 1: "(if length typed + length extra > length prompt then length prompt
            else length typed + length extra) = length prompt"
    using assms(1) by simp
  have 2: "(if length typed > length prompt then length prompt else length typed) = length prompt"
    using assms(1) by simp
  show ?thesis
    using False countCorrect_append [OF assms(1), of extra] assms(2)
    by (simp add: calculateAccuracy_def Let_def 1 2)
qed


lemma calculateWPM_typed:
  "calculateWPM (q\<lparr>TypedInput := a, CurrentPos := c\<rparr>) n =
   (calculateWPM q n)\<lparr>TypedInput := a, CurrentPos := c\<rparr>"
  by (simp add: calculateWPM_def Let_def)

lemma UpdateProgress_extra:
  assumes "length prompt \<le> length typed"
  shows "UpdateProgress p (typed @ extra) prompt now1 now2 =
         (UpdateProgress p typed prompt now1 now2)
           \<lparr>TypedInput := typed @ extra, CurrentPos := int (length (typed @ extra))\<rparr>"
proof -
  let ?p' = "p\<lparr>TypedInput := typed, CurrentPos := int (length typed), LastUpdate := now1\<rparr>"
  let ?c = "int (length (typed @ extra))"
  have eq: "p\<lparr>TypedInput := typed @ extra, CurrentPos := ?c, LastUpdate := now1\<rparr> =
        ?p'\<lparr>TypedInput := typed @ extra, CurrentPos := ?c\<rparr>"
    by simp
  have "UpdateProgress p (typed @ extra) prompt now1 now2 =
        calculateWPM (calculateAccuracy (?p'\<lparr>TypedInput := typed @ extra, CurrentPos := ?c\<rparr>) prompt) now2"
    by (simp only: UpdateProgress_def eq)
  also have "\<dots> = calculateWPM ((calculateAccuracy ?p' prompt)\<lparr>TypedInput := typed @ extra, CurrentPos := ?c\<rparr>) now2"
    using calculateAccuracy_extra [where p = "?p'" and extra = extra and c = "?c" and typed = typed, OF assms]
    by simp
  also have "\<dots> = (calculateWPM (calculateAccuracy ?p' prompt) now2)\<lparr>TypedInput := typed @ extra, CurrentPos := ?c\<rparr>"
    by (rule calculateWPM_typed)
  finally show ?thesis
    unfolding UpdateProgress_def .
qed

lemma Player_reachable_CurrentPos:
  "Player_reachable p \<Longrightarrow> CurrentPos p = int (length (TypedInput p))"
  by (induction rule: Player_reachable.induct)
     (simp_all add: NewPlayer_def UpdateProgress_def Finish_def calculateWPM_def
        calculateAccuracy_def Let_def)

text \<open>
  Claim C7. For every player, \<open>IsComplete(promptLength)\<close> holds exactly when the typed input
  has at least \<open>promptLength\<close> bytes. Bytes typed beyond the length of the prompt are not
  compared: a progress update with \<open>typed @ extra\<close>, where \<open>typed\<close> already covers the
  prompt, gives the same \<open>CorrectChars\<close>, \<open>TotalChars\<close>, \<open>Accuracy\<close> and \<open>WPM\<close> as the update
  with \<open>typed\<close> (at the same clock readings), and the input counts as complete in both.
\<close>

theorem IsComplete_iff_typed_length:
  assumes "Player_reachable p"
  shows "(IsComplete p promptLength \<longleftrightarrow> promptLength \<le> int (length (TypedInput p))) \<and>
    (length prompt \<le> length typed \<longrightarrow>
       (let q = UpdateProgress p typed prompt now1 now2;
            q' = UpdateProgress p (typed @ extra) prompt now1 now2
        in CorrectChars q' = CorrectChars q \<and> TotalChars q' = TotalChars q \<and>
           Accuracy q' = Accuracy q \<and> WPM q' = WPM q \<and>
           IsComplete q (int (length prompt)) \<and> IsComplete q' (int (length prompt))))"
proof -
  have a: "IsComplete p promptLength \<longleftrightarrow> promptLength \<le> int (length (TypedInput p))"
    using Player_reachable_CurrentPos [OF assms] by (simp add: IsComplete_def)
  have r: "Player_reachable (UpdateProgress p t prompt now1 now2)" for t
    using assms by (rule Player_reachable.upd)
  have t: "TypedInput (UpdateProgress p t prompt now1 now2) = t" for t
    by (simp add: UpdateProgress_def calculateWPM_def calculateAccuracy_def Let_def)
  have c: "IsComplete (UpdateProgress p t prompt now1 now2) n \<longleftrightarrow> n \<le> int (length t)" for t n
    using Player_reachable_CurrentPos [OF r [of t]] by (simp add: IsComplete_def t)
  have b: "length prompt \<le> length typed \<Longrightarrow>
      IsComplete (UpdateProgress p (typed @ extra) prompt now1 now2) (int (length prompt))"
    by (simp add: c)
  show ?thesis
    using a b by (simp add: Let_def c) (simp add: UpdateProgress_extra)
qed

theorem IsComplete_iff_typed_length_witness:
  "Player_reachable (UpdateProgress (NewPlayer ''p1'' ''ann'' [] 1000 1000) ''ca'' ''cat'' 2000 2000) \<and>
   \<not> IsComplete (UpdateProgress (NewPlayer ''p1'' ''ann'' [] 1000 1000) ''ca'' ''cat'' 2000 2000) 3 \<and>
   IsComplete (UpdateProgress (NewPlayer ''p1'' ''ann'' [] 1000 1000) ''ca'' ''cat'' 2000 2000) 2 \<and>
   length ''cat'' \<le> length ''cag'' \<and>
   CorrectChars (UpdateProgress (UpdateProgress (NewPlayer ''p1'' ''ann'' [] 1000 1000) ''ca'' ''cat'' 2000 2000) (''cag'' @ ''xyz'') ''cat'' 3000 3000)
   = CorrectChars (UpdateProgress (UpdateProgress (NewPlayer ''p1'' ''ann'' [] 1000 1000) ''ca'' ''cat'' 2000 2000) ''cag'' ''cat'' 3000 3000) \<and>
   IsComplete (UpdateProgress (UpdateProgress (NewPlayer ''p1'' ''ann'' [] 1000 1000) ''ca'' ''cat'' 2000 2000) (''cag'' @ ''xyz'') ''cat'' 3000 3000) 3"
proof -
  let ?p = "UpdateProgress (NewPlayer ''p1'' ''ann'' [] 1000 1000) ''ca'' ''cat'' 2000 2000"
  have r: "Player_reachable ?p"
    by (rule Player_reachable.upd, rule Player_reachable.new)
  have l: "length ''cat'' \<le> length ''cag''" by simp
  have t: "TypedInput ?p = ''ca''"
    by (simp add: UpdateProgress_def calculateWPM_def calculateAccuracy_def Let_def)
  from IsComplete_iff_typed_length [OF r, of 3 "''cat''" "''cag''" 3000 3000 "''xyz''"]
       IsComplete_iff_typed_length [OF r, of 2 "''cat''" "''cag''" 3000 3000 "''xyz''"] r l t
  show ?thesis
    by (simp add: Let_def)
qed


subsection \<open>The counts of a progress update\<close>

lemma calculateAccuracy_counts:
  assumes "prompt \<noteq> []"
  shows "0 \<le> CorrectChars (calculateAccuracy p prompt) \<and>
     CorrectChars (calculateAccuracy p prompt) \<le> TotalChars (calculateAccuracy p prompt) \<and>
     TotalChars (calculateAccuracy p prompt) =
       min (int (length (TypedInput p))) (int (length prompt))"
  using assms
    countCorrect_bounds [of 0 "TypedInput p" prompt "min (length (TypedInput p)) (length prompt)" 0]
  by (auto simp add: calculateAccuracy_def Let_def min_def)

lemma calculateAccuracy_range:
  "0 \<le> Accuracy (calculateAccuracy p prompt) \<and> Accuracy (calculateAccuracy p prompt) \<le> 100"
proof -
  have b: "real (countCorrect (TypedInput p) prompt n 0 0) \<le> real n" for n
    using countCorrect_bounds [of 0 "TypedInput p" prompt n 0] by simp
  have "0 < n \<Longrightarrow> real (countCorrect (TypedInput p) prompt n 0 0) / real n * 100 \<le> 100" for n
    using b [of n] by (simp add: field_simps)
  then show ?thesis
    by (simp add: calculateAccuracy_def Let_def)
qed

lemma calculateWPM_stats:
  "CorrectChars (calculateWPM p now) = CorrectChars p \<and>
   TotalChars (calculateWPM p now) = TotalChars p \<and>
   Accuracy (calculateWPM p now) = Accuracy p \<and>
   TypedInput (calculateWPM p now) = TypedInput p"
  by (simp add: calculateWPM_def Let_def)

text \<open>
  With a prompt that is not empty, a progress update leaves the counts within their
  bounds; the accuracy is within its bounds for every prompt, and 0 for the empty one.
\<close>

lemma UpdateProgress_counts:
  assumes "prompt \<noteq> []"
  shows "0 \<le> CorrectChars (UpdateProgress p typedInput prompt now1 now2) \<and>
     CorrectChars (UpdateProgress p typedInput prompt now1 now2)
       \<le> TotalChars (UpdateProgress p typedInput prompt now1 now2) \<and>
     TotalChars (UpdateProgress p typedInput prompt now1 now2)
       = min (int (length typedInput)) (int (length prompt))"
proof -
  let ?q = "p\<lparr>TypedInput := typedInput, CurrentPos := int (length typedInput), LastUpdate := now1\<rparr>"
  have t: "TypedInput ?q = typedInput"
    by simp
  have u: "UpdateProgress p typedInput prompt now1 now2 = calculateWPM (calculateAccuracy ?q prompt) now2"
    by (simp only: UpdateProgress_def)
  show ?thesis
    unfolding u calculateWPM_stats [THEN conjunct1]
      calculateWPM_stats [THEN conjunct2, THEN conjunct1]
    using calculateAccuracy_counts [OF assms, of ?q] unfolding t .
qed

lemma UpdateProgress_accuracy:
  "0 \<le> Accuracy (UpdateProgress p typedInput prompt now1 now2) \<and>
   Accuracy (UpdateProgress p typedInput prompt now1 now2) \<le> 100 \<and>
   Accuracy (UpdateProgress p typedInput [] now1 now2) = 0"
  using calculateAccuracy_range
  by (simp add: UpdateProgress_def calculateWPM_stats) (simp add: calculateAccuracy_def)

text \<open>
  Claim C6, as stated, fails for the empty prompt: \<open>calculateAccuracy\<close> then sets the
  accuracy to 0 and returns before it stores the counts. The player that has typed
  \<open>cat\<close> against \<open>cat\<close>, updated with the empty input against the empty prompt,
  keeps \<open>CorrectChars = 3\<close> and \<open>TotalChars = 3\<close>, above the bound \<open>0\<close>.
\<close>

theorem UpdateProgress_empty_prompt_counterexample:
  "CorrectChars ex_typed = 3 \<and> TotalChars ex_typed = 3 \<and>
   TypedInput (UpdateProgress ex_typed [] [] 3000 3000) = [] \<and>
   CorrectChars (UpdateProgress ex_typed [] [] 3000 3000) = 3 \<and>
   TotalChars (UpdateProgress ex_typed [] [] 3000 3000) = 3 \<and>
   Accuracy (UpdateProgress ex_typed [] [] 3000 3000) = 0 \<and>
   \<not> TotalChars (UpdateProgress ex_typed [] [] 3000 3000)
       \<le> min (int (length ([] :: string))) (int (length ([] :: string)))"
  by (simp add: ex_typed_def Let_def UpdateProgress_def NewPlayer_def calculateAccuracy_def
      calculateWPM_def countCorrect.simps time_Sub_def Minutes_def minDuration_def
      maxDuration_def)

text \<open>
  Claim C6, amended. For every player, every typed input and every prompt that is not
  empty, after \<open>UpdateProgress\<close> the counts satisfy
  \<open>0 \<le> CorrectChars \<le> TotalChars \<le> min (len typedInput) (len prompt)\<close>; for every
  prompt the accuracy is between 0 and 100, and it is 0 when the prompt is empty.
\<close>

theorem UpdateProgress_stats:
  "(prompt \<noteq> [] \<longrightarrow>
      0 \<le> CorrectChars (UpdateProgress p typedInput prompt now1 now2) \<and>
      CorrectChars (UpdateProgress p typedInput prompt now1 now2)
        \<le> TotalChars (UpdateProgress p typedInput prompt now1 now2) \<and>
      TotalChars (UpdateProgress p typedInput prompt now1 now2)
        \<le> min (int (length typedInput)) (int (length prompt))) \<and>
   TypedInput (UpdateProgress p typedInput prompt now1 now2) = typedInput \<and>
   0 \<le> Accuracy (UpdateProgress p typedInput prompt now1 now2) \<and>
   Accuracy (UpdateProgress p typedInput prompt now1 now2) \<le> 100 \<and>
   (prompt = [] \<longrightarrow> Accuracy (UpdateProgress p typedInput prompt now1 now2) = 0)"
proof (intro conjI impI)
  assume n: "prompt \<noteq> []"
  note c = UpdateProgress_counts [OF n, of p typedInput now1 now2]
  from c show "0 \<le> CorrectChars (UpdateProgress p typedInput prompt now1 now2)"
    by blast
  from c show "CorrectChars (UpdateProgress p typedInput prompt now1 now2)
        \<le> TotalChars (UpdateProgress p typedInput prompt now1 now2)"
    by blast
  from c have "TotalChars (UpdateProgress p typedInput prompt now1 now2)
        = min (int (length typedInput)) (int (length prompt))"
    by blast
  then show "TotalChars (UpdateProgress p typedInput prompt now1 now2)
        \<le> min (int (length typedInput)) (int (length prompt))"
    by (rule eq_refl)
next
  show "TypedInput (UpdateProgress p typedInput prompt now1 now2) = typedInput"
    by (simp add: UpdateProgress_def calculateWPM_stats) (simp add: calculateAccuracy_def Let_def)
next
  from UpdateProgress_accuracy [of p typedInput prompt now1 now2]
  show "0 \<le> Accuracy (UpdateProgress p typedInput prompt now1 now2)"
    and "Accuracy (UpdateProgress p typedInput prompt now1 now2) \<le> 100"
    by simp_all
next
  assume "prompt = []"
  with UpdateProgress_accuracy [of p typedInput prompt now1 now2]
  show "Accuracy (UpdateProgress p typedInput prompt now1 now2) = 0"
    by simp
qed

theorem UpdateProgress_stats_witness:
  "''cat'' \<noteq> [] \<and>
   CorrectChars (UpdateProgress ex_typed ''cag'' ''cat'' 3000 3000) = 2 \<and>
   TotalChars (UpdateProgress ex_typed ''cag'' ''cat'' 3000 3000) = 3 \<and>
   CorrectChars (UpdateProgress ex_typed ''cag'' ''cat'' 3000 3000)
     \<le> TotalChars (UpdateProgress ex_typed ''cag'' ''cat'' 3000 3000) \<and>
   TotalChars (UpdateProgress ex_typed ''cag'' ''cat'' 3000 3000)
     \<le> min (int (length ''cag'')) (int (length ''cat'')) \<and>
   Accuracy (UpdateProgress ex_typed ''cag'' ''cat'' 3000 3000) = 200 / 3 \<and>
   Accuracy (UpdateProgress ex_typed ''cag'' ''cat'' 3000 3000) \<le> 100 \<and>
   Accuracy (UpdateProgress ex_typed ''cag'' [] 3000 3000) = 0"
proof -
  have v: "CorrectChars (UpdateProgress ex_typed ''cag'' ''cat'' 3000 3000) = 2 \<and>
     TotalChars (UpdateProgress ex_typed ''cag'' ''cat'' 3000 3000) = 3 \<and>
     Accuracy (UpdateProgress ex_typed ''cag'' ''cat'' 3000 3000) = 200 / 3"
    by (simp add: Let_def UpdateProgress_def calculateAccuracy_def calculateWPM_def
        countCorrect.simps)
  from UpdateProgress_stats [of "''cat''" ex_typed "''cag''" 3000 3000]
       UpdateProgress_stats [of "[]" ex_typed "''cag''" 3000 3000] v
  show ?thesis
    by simp
qed

section \<open>Properties of Session\<close>

text \<open>The definitions that evaluate a concrete state.\<close>

lemmas Player_defs = NewPlayer_def UpdateProgress_def calculateAccuracy_def calculateWPM_def
  countCorrect.simps Finish_def IsComplete_def time_Sub_def Minutes_def minDuration_def
  maxDuration_def zeroTime_def time_After_def

lemmas Session_defs = NewSession_def Session_AddPlayer_def Session_RemovePlayer_def
  Session_UpdatePlayerProgress_def checkCompletion_def Session_Start_def
  Session_setCountdown_def Session_GetPlayer_def Session_GetPlayers_def

lemma ex_session_value:
  "ex_session = \<lparr>Session.ID = ''s'', Prompt = ''cat'', Session.Author = ''anon'',
      Session.Players = [(''a'', 1), (''b'', 2)], Session.MaxPlayers = 4,
      Session.StartTime = 0, Session.EndTime = 0, IsActive = False,
      Session.IsFinished = False, Countdown = 0\<rparr>"
  by (simp add: ex_session_def ex_heap_def Session_defs Player_defs)


lemma UpdateProgress_IsFinished:
  "Player.IsFinished (UpdateProgress p typedInput prompt now1 now2) = Player.IsFinished p"
  by (simp add: UpdateProgress_def calculateWPM_def calculateAccuracy_def Let_def)

lemma UpdateProgress_EndTime:
  "Player.EndTime (UpdateProgress p typedInput prompt now1 now2) = Player.EndTime p"
  by (simp add: UpdateProgress_def calculateWPM_def calculateAccuracy_def Let_def)

lemma UpdateProgress_StartTime:
  "Player.StartTime (UpdateProgress p typedInput prompt now1 now2) = Player.StartTime p"
  by (simp add: UpdateProgress_def calculateWPM_def calculateAccuracy_def Let_def)

lemma UpdateProgress_ID:
  "Player.ID (UpdateProgress p typedInput prompt now1 now2) = Player.ID p"
  by (simp add: UpdateProgress_def calculateWPM_def calculateAccuracy_def Let_def)

lemma UpdateProgress_CurrentPos:
  "CurrentPos (UpdateProgress p typedInput prompt now1 now2) = int (length typedInput)"
  by (simp add: UpdateProgress_def calculateWPM_def calculateAccuracy_def Let_def)

lemma Finish_IsFinished: "Player.IsFinished (Finish p now)"
  by (simp add: Finish_def calculateWPM_def Let_def)

lemma Finish_ID: "Player.ID (Finish p now) = Player.ID p"
  by (simp add: Finish_def calculateWPM_def Let_def)

lemma allFinished_iff:
  "allFinished h ps \<longleftrightarrow> (\<forall>(k, r) \<in> set ps. Player.IsFinished (h r))"
  by (induction ps) (auto split: if_splits)

lemma checkCompletion_frame:
  "IsActive (checkCompletion h s now) = IsActive s \<and>
   Countdown (checkCompletion h s now) = Countdown s \<and>
   Session.Players (checkCompletion h s now) = Session.Players s \<and>
   Prompt (checkCompletion h s now) = Prompt s \<and>
   Session.MaxPlayers (checkCompletion h s now) = Session.MaxPlayers s \<and>
   Session.StartTime (checkCompletion h s now) = Session.StartTime s \<and>
   Session.ID (checkCompletion h s now) = Session.ID s"
  by (simp add: checkCompletion_def)

lemma Session_UpdatePlayerProgress_member:
  assumes "map_of (Session.Players s) playerID = Some player"
  shows "Session_UpdatePlayerProgress h s playerID typedInput now1 now2 now3 now4 =
     (let h1 = h(player := UpdateProgress (h player) typedInput (Prompt s) now1 now2);
          h2 = (if IsComplete (h1 player) (int (length (Prompt s))) \<and>
                   \<not> Player.IsFinished (h1 player)
                then h1(player := Finish (h1 player) now3) else h1)
      in (h2, checkCompletion h2 s now4))"
  using assms by (simp add: Session_UpdatePlayerProgress_def Let_def)

lemma Session_UpdatePlayerProgress_other:
  assumes "map_of (Session.Players s) playerID = Some player" and "r \<noteq> player"
  shows "fst (Session_UpdatePlayerProgress h s playerID typedInput now1 now2 now3 now4) r = h r"
  using assms(2) by (simp add: Session_UpdatePlayerProgress_member [OF assms(1)] Let_def)

lemma Session_UpdatePlayerProgress_flag:
  assumes "map_of (Session.Players s) playerID = Some player"
  shows "Player.IsFinished
      (fst (Session_UpdatePlayerProgress h s playerID typedInput now1 now2 now3 now4) player)
    \<longleftrightarrow> Player.IsFinished (h player) \<or> length (Prompt s) \<le> length typedInput"
  by (auto simp add: Session_UpdatePlayerProgress_member [OF assms] Let_def Finish_IsFinished
      UpdateProgress_IsFinished IsComplete_def UpdateProgress_CurrentPos)

lemma Session_UpdatePlayerProgress_session:
  assumes "map_of (Session.Players s) playerID = Some player"
  shows "snd (Session_UpdatePlayerProgress h s playerID typedInput now1 now2 now3 now4) =
    checkCompletion (fst (Session_UpdatePlayerProgress h s playerID typedInput now1 now2 now3 now4))
      s now4"
  by (simp add: Session_UpdatePlayerProgress_member [OF assms] Let_def)

text \<open>
  When the update leaves every member of the roster finished, the session that was not
  finished becomes so; nothing is asked of \<open>IsActive\<close> or \<open>Countdown\<close>.
\<close>

lemma Session_UpdatePlayerProgress_completes:
  assumes m: "map_of (Session.Players s) playerID = Some player"
    and n: "\<not> Session.IsFinished s"
    and c: "Player.IsFinished (h player) \<or> length (Prompt s) \<le> length typedInput"
    and o: "\<forall>(k, r) \<in> set (Session.Players s). r \<noteq> player \<longrightarrow> Player.IsFinished (h r)"
  shows "Session.IsFinished
           (snd (Session_UpdatePlayerProgress h s playerID typedInput now1 now2 now3 now4)) \<and>
         Session.EndTime
           (snd (Session_UpdatePlayerProgress h s playerID typedInput now1 now2 now3 now4)) = now4"
proof -
  let ?h = "fst (Session_UpdatePlayerProgress h s playerID typedInput now1 now2 now3 now4)"
  have "Player.IsFinished (?h r)" if "(k, r) \<in> set (Session.Players s)" for k r
  proof (cases "r = player")
    case True
    with c show ?thesis
      by (simp only: Session_UpdatePlayerProgress_flag [OF m])
  next
    case False
    with o that have "Player.IsFinished (h r)" by auto
    then show ?thesis
      by (simp only: Session_UpdatePlayerProgress_other [OF m False])
  qed
  then have "allFinished ?h (Session.Players s)"
    unfolding allFinished_iff by blast
  then show ?thesis
    using n by (simp add: Session_UpdatePlayerProgress_session [OF m] checkCompletion_def)
qed

text \<open>
  Claim C9. \<open>Session.UpdatePlayerProgress\<close> asks nothing of \<open>IsActive\<close> or \<open>Countdown\<close>: when
  a member of the roster types the whole prompt and every other member is finished, the
  session that was not finished becomes finished and takes the clock reading of
  \<open>checkCompletion\<close> as its end time, whether or not \<open>Start\<close> was ever called and whatever
  the countdown is; \<open>IsActive\<close> and \<open>Countdown\<close> stay as they were.
\<close>

theorem UpdatePlayerProgress_finishes_without_start:
  assumes "map_of (Session.Players s) playerID = Some player"
    and "\<not> Session.IsFinished s"
    and "length (Prompt s) \<le> length typedInput"
    and "\<forall>(k, r) \<in> set (Session.Players s). r \<noteq> player \<longrightarrow> Player.IsFinished (h r)"
  shows "(let (h', s') = Session_UpdatePlayerProgress h s playerID typedInput now1 now2 now3 now4
          in Player.IsFinished (h' player) \<and>
             Session.IsFinished s' \<and>
             Session.EndTime s' = now4 \<and>
             IsActive s' = IsActive s \<and> Countdown s' = Countdown s)"
proof -
  let ?r = "Session_UpdatePlayerProgress h s playerID typedInput now1 now2 now3 now4"
  have f: "Player.IsFinished (fst ?r player)"
    using assms(3) by (simp add: Session_UpdatePlayerProgress_flag [OF assms(1)])
  have d: "Session.IsFinished (snd ?r) \<and> Session.EndTime (snd ?r) = now4"
    using Session_UpdatePlayerProgress_completes [OF assms(1) assms(2) _ assms(4)] assms(3)
    by blast
  have e: "IsActive (snd ?r) = IsActive s \<and> Countdown (snd ?r) = Countdown s"
    by (simp add: Session_UpdatePlayerProgress_session [OF assms(1)] checkCompletion_frame)
  from f d e show ?thesis
    by (simp add: case_prod_unfold)
qed

lemma ex_race_session: "snd ex_race = ex_session"
  by (simp add: ex_race_def ex_session_value ex_heap_def Session_defs Player_defs Let_def)

lemma ex_race_heap:
  "Player.IsFinished (fst ex_race 1) \<and> \<not> Player.IsFinished (fst ex_race 2) \<and>
   Player.EndTime (fst ex_race 1) = 2000"
  by (simp add: ex_race_def ex_session_value ex_heap_def Session_defs Player_defs Let_def)

theorem UpdatePlayerProgress_finishes_without_start_witness:
  "map_of (Session.Players (snd ex_race)) ''b'' = Some 2 \<and>
   \<not> Session.IsFinished (snd ex_race) \<and>
   length (Prompt (snd ex_race)) \<le> length ''cat'' \<and>
   Player.IsFinished (fst ex_race 1) \<and>
   \<not> IsActive (snd ex_race) \<and> Countdown (snd ex_race) = 0 \<and>
   (let (h', s') = Session_UpdatePlayerProgress (fst ex_race) (snd ex_race) ''b'' ''cat''
                     3000 3000 3000 3000
    in Player.IsFinished (h' 2) \<and> Session.IsFinished s' \<and> Session.EndTime s' = 3000 \<and>
       IsActive s' = IsActive (snd ex_race) \<and> Countdown s' = Countdown (snd ex_race))"
proof -
  have 1: "map_of (Session.Players (snd ex_race)) ''b'' = Some 2"
    by (simp add: ex_race_session ex_session_value)
  have 2: "\<not> Session.IsFinished (snd ex_race)"
    by (simp add: ex_race_session ex_session_value)
  have 3: "length (Prompt (snd ex_race)) \<le> length ''cat''"
    by (simp add: ex_race_session ex_session_value)
  have 4: "\<forall>(k, r) \<in> set (Session.Players (snd ex_race)). r \<noteq> 2 \<longrightarrow> Player.IsFinished (fst ex_race r)"
    using ex_race_heap by (simp add: ex_race_session ex_session_value)
  have 5: "\<not> IsActive (snd ex_race) \<and> Countdown (snd ex_race) = 0"
    by (simp add: ex_race_session ex_session_value)
  from UpdatePlayerProgress_finishes_without_start [OF 1 2 3 4, of 3000 3000 3000 3000] 1 2 3 5 ex_race_heap
  show ?thesis
    by (simp only: simp_thms)
qed


lemma Finish_twice_same_clock: "Finish (Finish p now) now = Finish p now"
  by (simp add: Finish_def calculateWPM_def Let_def)

lemma Session_methods_keep_IsFinished:
  "Session.IsFinished (Session_RemovePlayer s playerID) = Session.IsFinished s \<and>
   Session.EndTime (Session_RemovePlayer s playerID) = Session.EndTime s \<and>
   Session.IsFinished (Session_setCountdown s i) = Session.IsFinished s \<and>
   Session.EndTime (Session_setCountdown s i) = Session.EndTime s \<and>
   (\<forall>s'. Session_AddPlayer h s player = Inr s' \<longrightarrow>
      Session.IsFinished s' = Session.IsFinished s \<and> Session.EndTime s' = Session.EndTime s) \<and>
   (\<forall>s'. Session_Start s now = Inr s' \<longrightarrow>
      Session.IsFinished s' = Session.IsFinished s \<and> Session.EndTime s' = Session.EndTime s)"
  by (auto simp add: Session_RemovePlayer_def Session_setCountdown_def Session_AddPlayer_def
      Session_Start_def split: if_splits)

text \<open>
  Claim C10. \<open>Session.RemovePlayer\<close> deletes the player from the roster and changes no
  other field. A session that is not finished stays so when its last unfinished member
  is removed, although every member left is finished; the next progress update of a
  member left makes it finished. Of the methods of a session, \<open>AddPlayer\<close>, \<open>Start\<close>,
  the countdown's writes and \<open>RemovePlayer\<close> leave \<open>IsFinished\<close> as it is.
\<close>

theorem Session_RemovePlayer_changes_roster_only:
  "(let s' = Session_RemovePlayer s playerID
    in map_of (Session.Players s') = (map_of (Session.Players s))(playerID := None) \<and>
       Session.IsFinished s' = Session.IsFinished s \<and>
       Session.EndTime s' = Session.EndTime s \<and>
       IsActive s' = IsActive s \<and> Countdown s' = Countdown s \<and>
       Session.StartTime s' = Session.StartTime s \<and> Prompt s' = Prompt s \<and>
       Session.Author s' = Session.Author s \<and> Session.ID s' = Session.ID s \<and>
       Session.MaxPlayers s' = Session.MaxPlayers s \<and>
       (\<not> Session.IsFinished s \<and> allFinished h (Session.Players s') \<longrightarrow>
          \<not> Session.IsFinished s' \<and>
          (\<forall>k player. map_of (Session.Players s') k = Some player \<longrightarrow>
             Session.IsFinished
               (snd (Session_UpdatePlayerProgress h s' k typedInput now1 now2 now3 now4)))) \<and>
       Session.IsFinished (Session_setCountdown s i) = Session.IsFinished s \<and>
       (\<forall>s''. Session_AddPlayer h s newPlayer = Inr s'' \<longrightarrow>
          Session.IsFinished s'' = Session.IsFinished s) \<and>
       (\<forall>s''. Session_Start s now = Inr s'' \<longrightarrow>
          Session.IsFinished s'' = Session.IsFinished s))"
proof -
  let ?s = "Session_RemovePlayer s playerID"
  have a: "map_of (Session.Players ?s) = (map_of (Session.Players s))(playerID := None)"
    by (simp add: Session_RemovePlayer_def delete_conv')
  have b: "Session.IsFinished
             (snd (Session_UpdatePlayerProgress h ?s k typedInput now1 now2 now3 now4))"
    if "\<not> Session.IsFinished s" and "allFinished h (Session.Players ?s)"
      and "map_of (Session.Players ?s) k = Some player" for k player
  proof -
    have n: "\<not> Session.IsFinished ?s"
      using that(1) by (simp add: Session_RemovePlayer_def)
    have p: "Player.IsFinished (h player)"
      using that(2) map_of_SomeD [OF that(3)] unfolding allFinished_iff by auto
    have o: "\<forall>(k, r) \<in> set (Session.Players ?s). r \<noteq> player \<longrightarrow> Player.IsFinished (h r)"
      using that(2) unfolding allFinished_iff by auto
    from Session_UpdatePlayerProgress_completes [OF that(3) n _ o] p show ?thesis
      by blast
  qed
  have c: "Session.IsFinished ?s = Session.IsFinished s \<and>
       Session.EndTime ?s = Session.EndTime s \<and>
       IsActive ?s = IsActive s \<and> Countdown ?s = Countdown s \<and>
       Session.StartTime ?s = Session.StartTime s \<and> Prompt ?s = Prompt s \<and>
       Session.Author ?s = Session.Author s \<and> Session.ID ?s = Session.ID s \<and>
       Session.MaxPlayers ?s = Session.MaxPlayers s"
    by (simp add: Session_RemovePlayer_def)
  have d: "\<not> Session.IsFinished s \<and> allFinished h (Session.Players ?s) \<longrightarrow>
          \<not> Session.IsFinished ?s \<and>
          (\<forall>k player. map_of (Session.Players ?s) k = Some player \<longrightarrow>
             Session.IsFinished
               (snd (Session_UpdatePlayerProgress h ?s k typedInput now1 now2 now3 now4)))"
    using b c by blast
  have e: "Session.IsFinished (Session_setCountdown s i) = Session.IsFinished s \<and>
       (\<forall>s''. Session_AddPlayer h s newPlayer = Inr s'' \<longrightarrow>
          Session.IsFinished s'' = Session.IsFinished s) \<and>
       (\<forall>s''. Session_Start s now = Inr s'' \<longrightarrow>
          Session.IsFinished s'' = Session.IsFinished s)"
    using Session_methods_keep_IsFinished [of s playerID i h newPlayer now] by blast
  from a c d e show ?thesis
    unfolding Let_def by (intro conjI) blast+
qed


theorem Session_RemovePlayer_changes_roster_only_witness:
  "\<not> Session.IsFinished (snd ex_race) \<and>
   allFinished (fst ex_race) (Session.Players (Session_RemovePlayer (snd ex_race) ''b'')) \<and>
   map_of (Session.Players (Session_RemovePlayer (snd ex_race) ''b'')) ''a'' = Some 1 \<and>
   map_of (Session.Players (Session_RemovePlayer (snd ex_race) ''b'')) ''b'' = None \<and>
   \<not> Session.IsFinished (Session_RemovePlayer (snd ex_race) ''b'') \<and>
   Session.IsFinished
     (snd (Session_UpdatePlayerProgress (fst ex_race) (Session_RemovePlayer (snd ex_race) ''b'')
        ''a'' ''cat'' 3000 3000 3000 3000)) \<and>
   Session_Start (snd ex_race) 5000 =
     Inr ((snd ex_race)\<lparr>IsActive := True, Session.StartTime := 5000, Countdown := 3\<rparr>) \<and>
   \<not> Session.IsFinished ((snd ex_race)\<lparr>IsActive := True, Session.StartTime := 5000, Countdown := 3\<rparr>)"
proof -
  let ?s = "Session_RemovePlayer (snd ex_race) ''b''"
  have 1: "\<not> Session.IsFinished (snd ex_race)"
    by (simp add: ex_race_session ex_session_value)
  have 2: "allFinished (fst ex_race) (Session.Players ?s)"
    using ex_race_heap by (simp add: ex_race_session ex_session_value Session_RemovePlayer_def)
  have 3: "map_of (Session.Players ?s) ''a'' = Some 1"
    by (simp add: ex_race_session ex_session_value Session_RemovePlayer_def)
  have 4: "Session_Start (snd ex_race) 5000 =
     Inr ((snd ex_race)\<lparr>IsActive := True, Session.StartTime := 5000, Countdown := 3\<rparr>)"
    by (simp add: ex_race_session ex_session_value Session_Start_def)
  from Session_RemovePlayer_changes_roster_only
         [of "snd ex_race" "''b''" "fst ex_race" "''cat''" 3000 3000 3000 3000 0 0 5000]
       1 2 3 4
  show ?thesis
    by (simp add: Let_def)
qed

text \<open>
  Claim C3, as stated, fails: \<open>Finish\<close> has no guard. Called at two minutes on a player
  that finished at one minute, it moves the end time to two minutes and halves the WPM.
\<close>

theorem Finish_twice_counterexample:
  "Player.IsFinished ex_finished \<and>
   Player.EndTime ex_finished = 60000000000 \<and>
   WPM ex_finished = 3 / 5 \<and>
   Player.EndTime (Finish ex_finished 120000000000) = 120000000000 \<and>
   WPM (Finish ex_finished 120000000000) = 3 / 10 \<and>
   Player.EndTime (Finish ex_finished 120000000000) \<noteq> Player.EndTime ex_finished \<and>
   WPM (Finish ex_finished 120000000000) \<noteq> WPM ex_finished"
  by (simp add: ex_finished_def Player_defs Let_def)

lemma UpdateProgress_finished:
  assumes "Player.IsFinished p"
  shows "WPM (UpdateProgress p typedInput prompt now1 now2) =
     (if Minutes (time_Sub (Player.EndTime p) (Player.StartTime p)) > 0
      then real_of_int (CorrectChars (UpdateProgress p typedInput prompt now1 now2)) / 5 /
             Minutes (time_Sub (Player.EndTime p) (Player.StartTime p))
      else WPM p)"
  using assms by (simp add: UpdateProgress_def calculateWPM_def calculateAccuracy_def Let_def)

lemma Session_UpdatePlayerProgress_finished_member:
  assumes "map_of (Session.Players s) playerID = Some player" and "Player.IsFinished (h player)"
  shows "fst (Session_UpdatePlayerProgress h s playerID typedInput now1 now2 now3 now4) player =
         UpdateProgress (h player) typedInput (Prompt s) now1 now2"
  using assms(2)
  by (simp add: Session_UpdatePlayerProgress_member [OF assms(1)] Let_def UpdateProgress_IsFinished)

text \<open>
  Claim C3, amended. \<open>Finish\<close> changes nothing when it is called again at the same clock
  reading. The guard is in the caller: \<open>Session.UpdatePlayerProgress\<close> calls \<open>Finish\<close> only
  on a player whose flag is unset, so a progress update for a finished player leaves the
  flag, the end time and the start time as they were, and its WPM is the number of correct
  bytes over five over the frozen minutes \<open>EndTime - StartTime\<close> (or as before, when that
  time is not positive).
\<close>

theorem finished_player_keeps_EndTime:
  "Finish (Finish p now) now = Finish p now \<and>
   (map_of (Session.Players s) playerID = Some player \<and> Player.IsFinished (h player) \<longrightarrow>
     (let (h', s') = Session_UpdatePlayerProgress h s playerID typedInput now1 now2 now3 now4;
          elapsed = Minutes (time_Sub (Player.EndTime (h player)) (Player.StartTime (h player)))
      in Player.IsFinished (h' player) \<and>
         Player.EndTime (h' player) = Player.EndTime (h player) \<and>
         Player.StartTime (h' player) = Player.StartTime (h player) \<and>
         WPM (h' player) =
           (if elapsed > 0 then real_of_int (CorrectChars (h' player)) / 5 / elapsed
            else WPM (h player))))"
proof (intro conjI impI)
  show "Finish (Finish p now) now = Finish p now"
    by (rule Finish_twice_same_clock)
next
  assume a: "map_of (Session.Players s) playerID = Some player \<and> Player.IsFinished (h player)"
  then have m: "map_of (Session.Players s) playerID = Some player"
    and f: "Player.IsFinished (h player)"
    by simp_all
  note e = Session_UpdatePlayerProgress_finished_member
      [where h = h and player = player and typedInput = typedInput and ?now1.0 = now1
         and ?now2.0 = now2 and ?now3.0 = now3 and ?now4.0 = now4, OF m f]
  show "(let (h', s') = Session_UpdatePlayerProgress h s playerID typedInput now1 now2 now3 now4;
          elapsed = Minutes (time_Sub (Player.EndTime (h player)) (Player.StartTime (h player)))
      in Player.IsFinished (h' player) \<and>
         Player.EndTime (h' player) = Player.EndTime (h player) \<and>
         Player.StartTime (h' player) = Player.StartTime (h player) \<and>
         WPM (h' player) =
           (if elapsed > 0 then real_of_int (CorrectChars (h' player)) / 5 / elapsed
            else WPM (h player)))"
    using f UpdateProgress_finished [OF f, of typedInput "Prompt s" now1 now2]
    by (simp add: case_prod_unfold Let_def e UpdateProgress_IsFinished UpdateProgress_EndTime
        UpdateProgress_StartTime)
qed

theorem finished_player_keeps_EndTime_witness:
  "map_of (Session.Players (snd ex_race)) ''a'' = Some 1 \<and>
   Player.IsFinished (fst ex_race 1) \<and>
   Player.EndTime (fst ex_race 1) = 2000 \<and>
   Player.EndTime
     (fst (Session_UpdatePlayerProgress (fst ex_race) (snd ex_race) ''a'' ''cat''
        7000 7000 7000 7000) 1) = 2000 \<and>
   Player.IsFinished
     (fst (Session_UpdatePlayerProgress (fst ex_race) (snd ex_race) ''a'' ''cat''
        7000 7000 7000 7000) 1)"
proof -
  have 1: "map_of (Session.Players (snd ex_race)) ''a'' = Some 1"
    by (simp add: ex_race_session ex_session_value)
  from finished_player_keeps_EndTime
         [of ex_finished 0 "snd ex_race" "''a''" 1 "fst ex_race" "''cat''" 7000 7000 7000 7000]
       1 ex_race_heap
  show ?thesis
    by (simp add: case_prod_unfold Let_def)
qed

subsection \<open>The order of the leaderboard\<close>

lemma standsBefore_total: "standsBefore h a b \<or> standsBefore h b a"
  unfolding standsBefore_def by auto

lemma standsBefore_trans:
  "standsBefore h a b \<Longrightarrow> standsBefore h b c \<Longrightarrow> standsBefore h a c"
  unfolding standsBefore_def by auto

lemma swap_condition:
  "(if Player.IsFinished (h (ps ! i)) \<and> Player.IsFinished (h (ps ! j))
    then (if time_After (Player.EndTime (h (ps ! i))) (Player.EndTime (h (ps ! j)))
          then ps[i := ps ! j, j := ps ! i] else ps)
    else if Player.IsFinished (h (ps ! i)) \<and> \<not> Player.IsFinished (h (ps ! j))
    then ps[i := ps ! j, j := ps ! i]
    else ps) =
   (if standsBefore h (ps ! i) (ps ! j) then ps else ps[i := ps ! j, j := ps ! i])"
  by (auto simp add: standsBefore_def time_After_def)

lemma leaderboardInner_step:
  "leaderboardInner h ps i j =
     (if j < length ps
      then leaderboardInner h
             (if standsBefore h (ps ! i) (ps ! j) then ps else ps[i := ps ! j, j := ps ! i])
             i (Suc j)
      else ps)"
  by (subst leaderboardInner.simps) (simp only: swap_condition)

lemma leaderboardInner_length: "length (leaderboardInner h ps i j) = length ps"
proof (induction h ps i j rule: leaderboardInner.induct)
  case (1 h ps i j)
  show ?case
  proof (cases "j < length ps")
    case True
    from "1.IH" [OF True, unfolded swap_condition] True show ?thesis
      by (subst leaderboardInner_step) (simp split: if_splits)
  next
    case False
    then show ?thesis
      by (subst leaderboardInner_step) simp
  qed
qed

lemma leaderboardInner_mset:
  "i < length ps \<Longrightarrow> mset (leaderboardInner h ps i j) = mset ps"
proof (induction h ps i j rule: leaderboardInner.induct)
  case (1 h ps i j)
  show ?case
  proof (cases "j < length ps")
    case True
    let ?ps = "if standsBefore h (ps ! i) (ps ! j) then ps else ps[i := ps ! j, j := ps ! i]"
    have m: "mset ?ps = mset ps"
      using "1.prems" True by (simp add: mset_swap)
    have l: "i < length ?ps"
      using "1.prems" by simp
    from "1.IH" [OF True, unfolded swap_condition, OF l]
    have "mset (leaderboardInner h ?ps i (Suc j)) = mset ?ps" .
    with m show ?thesis
      using True by (subst leaderboardInner_step) (simp only: if_True)
  next
    case False
    then show ?thesis
      by (subst leaderboardInner_step) simp
  qed
qed

lemma placed_swap:
  assumes "placed h i ps" and "i \<le> j" and "j < length ps"
  shows "placed h i (ps[i := ps ! j, j := ps ! i])"
  unfolding placed_def
proof (intro allI impI)
  fix a b
  assume ab: "a < i \<and> a < b \<and> b < length (ps[i := ps ! j, j := ps ! i])"
  then have a: "a < i" "a < b" "b < length ps" by simp_all
  have x: "(ps[i := ps ! j, j := ps ! i]) ! a = ps ! a"
    using a assms(2) by simp
  have "\<exists>c. a < c \<and> c < length ps \<and> (ps[i := ps ! j, j := ps ! i]) ! b = ps ! c"
  proof (cases "b = j")
    case True
    then show ?thesis
      using a assms by (intro exI [of _ i]) simp
  next
    case False
    show ?thesis
    proof (cases "b = i")
      case True
      then show ?thesis
        using a assms False by (intro exI [of _ j]) simp
    next
      case nb: False
      then show ?thesis
        using a False by (intro exI [of _ b]) simp
    qed
  qed
  then obtain c where "a < c" "c < length ps" "(ps[i := ps ! j, j := ps ! i]) ! b = ps ! c"
    by blast
  with assms(1) a(1) x
  show "standsBefore h ((ps[i := ps ! j, j := ps ! i]) ! a) ((ps[i := ps ! j, j := ps ! i]) ! b)"
    unfolding placed_def by simp
qed

text \<open>
  The inner loop: when the player at \<open>i\<close> may stand before those at \<open>i + 1, ..., j - 1\<close>,
  it may, after the loop, stand before all at later positions.
\<close>

lemma leaderboardInner_placed:
  assumes "placed h i ps" and "i < j"
    and "\<forall>k. i < k \<and> k < j \<longrightarrow> standsBefore h (ps ! i) (ps ! k)"
  shows "placed h (Suc i) (leaderboardInner h ps i j)"
  using assms
proof (induction h ps i j rule: leaderboardInner.induct)
  case (1 h ps i j)
  show ?case
  proof (cases "j < length ps")
    case False
    have "placed h (Suc i) ps"
      unfolding placed_def
    proof (intro allI impI)
      fix a b
      assume ab: "a < Suc i \<and> a < b \<and> b < length ps"
      show "standsBefore h (ps ! a) (ps ! b)"
      proof (cases "a = i")
        case True
        with ab False "1.prems"(3) show ?thesis by simp
      next
        case na: False
        with ab "1.prems"(1) show ?thesis
          unfolding placed_def by simp
      qed
    qed
    with False show ?thesis
      by (subst leaderboardInner_step) simp
  next
    case True
    let ?ps = "if standsBefore h (ps ! i) (ps ! j) then ps else ps[i := ps ! j, j := ps ! i]"
    have p: "placed h i ?ps"
      using "1.prems"(1) "1.prems"(2) True by (simp add: placed_swap)
    have k: "\<forall>k. i < k \<and> k < Suc j \<longrightarrow> standsBefore h (?ps ! i) (?ps ! k)"
    proof (intro allI impI)
      fix k
      assume ik: "i < k \<and> k < Suc j"
      show "standsBefore h (?ps ! i) (?ps ! k)"
      proof (cases "standsBefore h (ps ! i) (ps ! j)")
        case sb: True
        show ?thesis
        proof (cases "k = j")
          case True
          with sb show ?thesis by simp
        next
          case False
          with ik have "k < j" by simp
          with ik "1.prems"(3) sb show ?thesis by simp
        qed
      next
        case nsb: False
        with standsBefore_total [of h "ps ! i" "ps ! j"]
        have ji: "standsBefore h (ps ! j) (ps ! i)" by simp
        show ?thesis
        proof (cases "k = j")
          case True
          with nsb ji "1.prems"(2) \<open>j < length ps\<close> show ?thesis by simp
        next
          case False
          with ik have kj: "k < j" by simp
          with ik "1.prems"(3) have "standsBefore h (ps ! i) (ps ! k)" by simp
          with ji have "standsBefore h (ps ! j) (ps ! k)"
            by (rule standsBefore_trans)
          with nsb ik kj "1.prems"(2) \<open>j < length ps\<close> show ?thesis by simp
        qed
      qed
    qed
    have "i < Suc j"
      using "1.prems"(2) by simp
    from "1.IH" [OF True, unfolded swap_condition, OF p this k] True show ?thesis
      by (subst leaderboardInner_step) (simp only: if_True)
  qed
qed

lemma leaderboardOuter_placed:
  assumes "placed h i ps"
  shows "placed h (length ps) (leaderboardOuter h ps i) \<and>
         length (leaderboardOuter h ps i) = length ps \<and>
         mset (leaderboardOuter h ps i) = mset ps"
  using assms
proof (induction h ps i rule: leaderboardOuter.induct)
  case (1 h ps i)
  show ?case
  proof (cases "i < length ps")
    case True
    let ?ps = "leaderboardInner h ps i (Suc i)"
    have "placed h (Suc i) ?ps"
      using "1.prems" by (intro leaderboardInner_placed) auto
    from "1.IH" [OF True this] True show ?thesis
      by (subst (1 2 3) leaderboardOuter.simps)
         (simp add: leaderboardInner_length leaderboardInner_mset)
  next
    case False
    then have "placed h (length ps) ps"
      using "1.prems" unfolding placed_def by simp
    with False show ?thesis
      by (subst (1 2 3) leaderboardOuter.simps) simp
  qed
qed

text \<open>
  What \<open>GetLeaderboard\<close> returns: the roster, rearranged so that every player may stand
  before every later one. The unfinished players come first, then the finished ones
  by end time.
\<close>

lemma GetLeaderboard_order:
  "mset (GetLeaderboard h s) = mset (map snd (Session.Players s)) \<and>
   sorted_wrt (standsBefore h) (GetLeaderboard h s)"
proof -
  have "placed h 0 (map snd (Session.Players s))"
    by (simp add: placed_def)
  from leaderboardOuter_placed [OF this] show ?thesis
    unfolding GetLeaderboard_def sorted_wrt_iff_nth_less placed_def by simp
qed

lemma GetLeaderboard_unfinished_before_finished:
  assumes "a < b" and "b < length (GetLeaderboard h s)"
    and "\<not> Player.IsFinished (h (GetLeaderboard h s ! b))"
  shows "\<not> Player.IsFinished (h (GetLeaderboard h s ! a))"
  using GetLeaderboard_order [of h s] assms
  unfolding sorted_wrt_iff_nth_less standsBefore_def by blast

text \<open>
  Claim C1. The leaderboard should list the finished players before the unfinished ones.
  In the race in which \<open>a\<close> is finished and \<open>b\<close> is not, \<open>GetLeaderboard\<close> returns \<open>b\<close> before
  \<open>a\<close>, in whichever order the roster is ranged over: the branch commented
  \<open>Finished players come first\<close> swaps the unfinished player to the front. (By
  \<open>GetLeaderboard_order\<close> this is so for every roster: the result is a permutation in
  which the unfinished players come first.)
\<close>

theorem GetLeaderboard_unfinished_first:
  "Player.IsFinished (fst ex_race 1) \<and> \<not> Player.IsFinished (fst ex_race 2) \<and>
   Session.Players (snd ex_race) = [(''a'', 1), (''b'', 2)] \<and>
   GetLeaderboard (fst ex_race) (snd ex_race) = [2, 1] \<and>
   GetLeaderboard (fst ex_race)
     ((snd ex_race)\<lparr>Session.Players := [(''b'', 2), (''a'', 1)]\<rparr>) = [2, 1]"
  using ex_race_heap
  by (simp add: ex_race_session ex_session_value GetLeaderboard_def leaderboardOuter.simps
      leaderboardInner.simps)


section \<open>Properties of Manager\<close>

subsection \<open>Association lists\<close>

lemma set_update_cases:
  "(k', v') \<in> set (AList.update k v al) \<Longrightarrow> (k', v') = (k, v) \<or> (k', v') \<in> set al"
  by (induction al) (auto split: if_splits)

lemma set_delete_subset: "set (AList.delete k al) \<subseteq> set al"
  by (simp add: AList.delete_eq)

lemma length_update_le: "length (AList.update k v al) \<le> Suc (length al)"
  by (induction al) auto

lemma update_new_key: "k \<notin> fst ` set al \<Longrightarrow> AList.update k v al = al @ [(k, v)]"
  by (induction al) auto

lemma Ball_update:
  assumes "\<forall>(k, v) \<in> set al. Q k v" and "Q k' v'"
  shows "\<forall>(k, v) \<in> set (AList.update k' v' al). Q k v"
  using assms set_update_cases [of _ _ k' v' al] by fastforce

lemma Ball_delete:
  assumes "\<forall>(k, v) \<in> set al. Q k v"
  shows "\<forall>(k, v) \<in> set (AList.delete k' al). Q k v"
  using assms set_delete_subset [of k' al] by blast

subsection \<open>Rosters\<close>

lemma roster_ok_Nil: "roster_ok h []"
  by (simp add: roster_ok_def)

lemma roster_ok_update:
  assumes "roster_ok h ps" and "Player.ID (h r) = k"
  shows "roster_ok h (AList.update k r ps)"
  using assms Ball_update [of ps "\<lambda>k r. Player.ID (h r) = k" k r]
  by (simp add: roster_ok_def distinct_update)

lemma roster_ok_delete:
  assumes "roster_ok h ps"
  shows "roster_ok h (AList.delete k ps)"
  using assms Ball_delete [of ps "\<lambda>k r. Player.ID (h r) = k" k]
  by (simp add: roster_ok_def distinct_delete)

lemma roster_ok_heap:
  assumes "roster_ok h ps" and "\<forall>r \<in> snd ` set ps. Player.ID (h' r) = Player.ID (h r)"
  shows "roster_ok h' ps"
  using assms unfolding roster_ok_def by fastforce

subsection \<open>The methods of a lobby and of a session keep it well-formed\<close>

lemma Lobby_AddPlayer_ok:
  assumes "Lobby_ok h l" and "Lobby_AddPlayer h l player = Inr l'"
  shows "Lobby_ok h l'"
proof -
  from assms(2) have g: "int (length (Lobby.Players l)) < Lobby.MaxPlayers l"
    and e: "l' = l\<lparr>Lobby.Players := AList.update (Player.ID (h player)) player (Lobby.Players l)\<rparr>"
    by (auto simp add: Lobby_AddPlayer_def split: if_splits)
  have "int (length (AList.update (Player.ID (h player)) player (Lobby.Players l)))
        \<le> Lobby.MaxPlayers l"
    using g length_update_le [of "Player.ID (h player)" player "Lobby.Players l"] by linarith
  then show ?thesis
    using assms(1) by (simp add: e Lobby_ok_def roster_ok_update)
qed

lemma Lobby_RemovePlayer_ok:
  assumes "Lobby_ok h l"
  shows "Lobby_ok h (Lobby_RemovePlayer l playerID)"
  using assms length_delete_le [of playerID "Lobby.Players l"]
  by (simp add: Lobby_ok_def Lobby_RemovePlayer_def roster_ok_delete)

lemma Session_AddPlayer_ok:
  assumes "Session_ok h s" and "Session_AddPlayer h s player = Inr s'"
  shows "Session_ok h s'"
proof -
  from assms(2) have g: "int (length (Session.Players s)) < Session.MaxPlayers s"
    and e: "s' = s\<lparr>Session.Players := AList.update (Player.ID (h player)) player (Session.Players s)\<rparr>"
    by (auto simp add: Session_AddPlayer_def split: if_splits)
  have "int (length (AList.update (Player.ID (h player)) player (Session.Players s)))
        \<le> Session.MaxPlayers s"
    using g length_update_le [of "Player.ID (h player)" player "Session.Players s"] by linarith
  then show ?thesis
    using assms(1) by (simp add: e Session_ok_def roster_ok_update)
qed

lemma Session_RemovePlayer_ok:
  assumes "Session_ok h s"
  shows "Session_ok h (Session_RemovePlayer s playerID)"
  using assms length_delete_le [of playerID "Session.Players s"]
  by (simp add: Session_ok_def Session_RemovePlayer_def roster_ok_delete)

lemma Session_Start_ok:
  assumes "Session_ok h s" and "Session_Start s now = Inr s'"
  shows "Session_ok h s'"
  using assms by (auto simp add: Session_ok_def Session_Start_def split: if_splits)

lemma Session_setCountdown_ok:
  assumes "Session_ok h s"
  shows "Session_ok h (Session_setCountdown s i)"
  using assms by (simp add: Session_ok_def Session_setCountdown_def)

lemma Session_UpdatePlayerProgress_ID:
  "Player.ID (fst (Session_UpdatePlayerProgress h s playerID typedInput now1 now2 now3 now4) r)
   = Player.ID (h r)"
  by (simp add: Session_UpdatePlayerProgress_def Let_def UpdateProgress_ID Finish_ID
      split: option.splits)

lemma Session_UpdatePlayerProgress_roster:
  "Session.Players (snd (Session_UpdatePlayerProgress h s playerID typedInput now1 now2 now3 now4))
     = Session.Players s \<and>
   Session.MaxPlayers (snd (Session_UpdatePlayerProgress h s playerID typedInput now1 now2 now3 now4))
     = Session.MaxPlayers s"
  by (simp add: Session_UpdatePlayerProgress_def Let_def checkCompletion_frame
      split: option.splits)

lemma Session_ok_heap:
  assumes "Session_ok h s" and "\<forall>r \<in> snd ` set (Session.Players s). Player.ID (h' r) = Player.ID (h r)"
  shows "Session_ok h' s"
  using assms roster_ok_heap [of h "Session.Players s" h'] by (simp add: Session_ok_def)

lemma Lobby_ok_heap:
  assumes "Lobby_ok h l" and "\<forall>r \<in> snd ` set (Lobby.Players l). Player.ID (h' r) = Player.ID (h r)"
  shows "Lobby_ok h' l"
  using assms roster_ok_heap [of h "Lobby.Players l" h'] by (simp add: Lobby_ok_def)

lemma refs_players: "r \<in> snd ` set (players m) \<Longrightarrow> r \<in> refs m"
  unfolding refs_def by blast

lemma refs_lobby: "(k, l) \<in> set (lobbies m) \<Longrightarrow> r \<in> snd ` set (Lobby.Players l) \<Longrightarrow> r \<in> refs m"
  unfolding refs_def by blast

lemma refs_session: "(k, s) \<in> set (sessions m) \<Longrightarrow> r \<in> snd ` set (Session.Players s) \<Longrightarrow> r \<in> refs m"
  unfolding refs_def by blast

lemma Manager_ok_heap:
  assumes "Manager_ok h m" and "\<forall>r \<in> refs m. Player.ID (h' r) = Player.ID (h r)"
  shows "Manager_ok h' m"
proof -
  have p: "roster_ok h' (players m)"
  proof (rule roster_ok_heap [of h])
    show "roster_ok h (players m)"
      using assms(1) by (simp add: Manager_ok_def)
    show "\<forall>r \<in> snd ` set (players m). Player.ID (h' r) = Player.ID (h r)"
      using assms(2) refs_players by blast
  qed
  have l: "Lobby_ok h' l" if "(k, l) \<in> set (lobbies m)" for k l
  proof (rule Lobby_ok_heap [of h])
    show "Lobby_ok h l"
      using assms(1) that by (auto simp add: Manager_ok_def)
    show "\<forall>r \<in> snd ` set (Lobby.Players l). Player.ID (h' r) = Player.ID (h r)"
      using assms(2) refs_lobby [OF that] by blast
  qed
  have s: "Session_ok h' s" if "(k, s) \<in> set (sessions m)" for k s
  proof (rule Session_ok_heap [of h])
    show "Session_ok h s"
      using assms(1) that by (auto simp add: Manager_ok_def)
    show "\<forall>r \<in> snd ` set (Session.Players s). Player.ID (h' r) = Player.ID (h r)"
      using assms(2) refs_session [OF that] by blast
  qed
  from p l s assms(1) show ?thesis
    unfolding Manager_ok_def by blast
qed


subsection \<open>The registries\<close>

lemma Manager_ok_lobby:
  assumes "Manager_ok h m" and "map_of (lobbies m) k = Some l"
  shows "Lobby_ok h l"
  using assms(1) map_of_SomeD [OF assms(2)] unfolding Manager_ok_def by blast

lemma Manager_ok_session:
  assumes "Manager_ok h m" and "map_of (sessions m) k = Some s"
  shows "Session_ok h s"
  using assms(1) map_of_SomeD [OF assms(2)] unfolding Manager_ok_def by blast

lemma Manager_ok_session_mem:
  assumes "Manager_ok h m" and "(k, s) \<in> set (sessions m)"
  shows "Session_ok h s"
  using assms unfolding Manager_ok_def by blast

lemma lobbies_update_ok:
  assumes "Manager_ok h m" and "Lobby_ok h l"
  shows "Manager_ok h (m\<lparr>lobbies := AList.update k l (lobbies m)\<rparr>)"
proof -
  have "\<forall>(k, l) \<in> set (AList.update k l (lobbies m)). Lobby_ok h l"
    using assms by (intro Ball_update) (simp_all add: Manager_ok_def)
  then show ?thesis
    using assms(1) by (simp add: Manager_ok_def distinct_update)
qed

lemma lobbies_delete_ok:
  assumes "Manager_ok h m"
  shows "Manager_ok h (m\<lparr>lobbies := AList.delete k (lobbies m)\<rparr>)"
proof -
  have "\<forall>(k, l) \<in> set (AList.delete k (lobbies m)). Lobby_ok h l"
    using assms by (intro Ball_delete) (simp add: Manager_ok_def)
  then show ?thesis
    using assms(1) by (simp add: Manager_ok_def distinct_delete)
qed

lemma sessions_update_ok:
  assumes "Manager_ok h m" and "Session_ok h s"
  shows "Manager_ok h (m\<lparr>sessions := AList.update k s (sessions m)\<rparr>)"
proof -
  have "\<forall>(k, s) \<in> set (AList.update k s (sessions m)). Session_ok h s"
    using assms by (intro Ball_update) (simp_all add: Manager_ok_def)
  then show ?thesis
    using assms(1) by (simp add: Manager_ok_def distinct_update)
qed

lemma removeFromSessions_eq:
  "removeFromSessions playerID ss =
     filter (\<lambda>(k, s). Session.Players s \<noteq> [])
       (map (\<lambda>(k, s). (k, Session_RemovePlayer s playerID)) ss)"
  by (induction ss) (auto simp add: Let_def Session_GetPlayers_def)

lemma removeFromLobbies_eq:
  "removeFromLobbies playerID ls =
     filter (\<lambda>(k, l). Lobby.Players l \<noteq> [])
       (map (\<lambda>(k, l). (k, Lobby_RemovePlayer l playerID)) ls)"
  by (induction ls) (auto simp add: Let_def Lobby_GetPlayers_def)

lemma map_fst_map_snd: "map fst (map (\<lambda>(k, v). (k, f v)) al) = map fst al"
  by (induction al) auto

lemma Manager_RemovePlayer_ok:
  assumes "Manager_ok h m"
  shows "Manager_ok h (Manager_RemovePlayer m playerID)"
proof -
  have "distinct (map fst (map (\<lambda>(k, s). (k, Session_RemovePlayer s playerID)) (sessions m)))"
    unfolding map_fst_map_snd using assms by (simp add: Manager_ok_def)
  then have ds: "distinct (map fst (removeFromSessions playerID (sessions m)))"
    unfolding removeFromSessions_eq by (rule distinct_map_filter)
  have "distinct (map fst (map (\<lambda>(k, l). (k, Lobby_RemovePlayer l playerID)) (lobbies m)))"
    unfolding map_fst_map_snd using assms by (simp add: Manager_ok_def)
  then have dl: "distinct (map fst (removeFromLobbies playerID (lobbies m)))"
    unfolding removeFromLobbies_eq by (rule distinct_map_filter)
  have s: "Session_ok h s" if "(k, s) \<in> set (removeFromSessions playerID (sessions m))" for k s
  proof -
    from that obtain s0 where "(k, s0) \<in> set (sessions m)" and "s = Session_RemovePlayer s0 playerID"
      unfolding removeFromSessions_eq by auto
    with assms show ?thesis
      by (auto simp add: Manager_ok_def intro: Session_RemovePlayer_ok)
  qed
  have l: "Lobby_ok h l" if "(k, l) \<in> set (removeFromLobbies playerID (lobbies m))" for k l
  proof -
    from that obtain l0 where "(k, l0) \<in> set (lobbies m)" and "l = Lobby_RemovePlayer l0 playerID"
      unfolding removeFromLobbies_eq by auto
    with assms show ?thesis
      by (auto simp add: Manager_ok_def intro: Lobby_RemovePlayer_ok)
  qed
  have p: "roster_ok h (AList.delete playerID (players m))"
    using assms by (simp add: Manager_ok_def roster_ok_delete)
  from ds dl s l p show ?thesis
    unfolding Manager_ok_def Manager_RemovePlayer_def by auto
qed

lemma Manager_AddPlayer_ok:
  assumes "Manager_ok h m" and "player \<notin> refs m"
    and "Manager_AddPlayer h m player playerID playerName now1 now2 = Inr (h', m', p)"
  shows "Manager_ok h' m'"
proof -
  from assms(3) have h': "h' = h(player := NewPlayer playerID playerName [] now1 now2)"
    and m': "m' = m\<lparr>players := AList.update playerID player (players m)\<rparr>"
    by (auto simp add: Manager_AddPlayer_def split: if_splits)
  have "\<forall>r \<in> refs m. Player.ID (h' r) = Player.ID (h r)"
    using assms(2) by (auto simp add: h')
  with assms(1) have ok: "Manager_ok h' m"
    by (rule Manager_ok_heap)
  have "Player.ID (h' player) = playerID"
    by (simp add: h' NewPlayer_def)
  with ok have "roster_ok h' (AList.update playerID player (players m))"
    by (simp add: Manager_ok_def roster_ok_update)
  with ok show ?thesis
    by (simp add: m' Manager_ok_def)
qed

lemma Manager_CreateLobby_ok:
  assumes "Manager_ok h m" and "Manager_CreateLobby m maxPlayers uuid now = Inr (m', l)"
  shows "Manager_ok h m'"
proof -
  from assms(2) have m': "m' = m\<lparr>lobbies := AList.update uuid l (lobbies m)\<rparr>"
    and l: "l = \<lparr>Lobby.ID = uuid, Lobby.Players = [], Lobby.MaxPlayers = maxPlayers, CreatedAt = now\<rparr>"
    by (auto simp add: Manager_CreateLobby_def Let_def)
  have "Lobby_ok h l"
    by (simp add: l Lobby_ok_def roster_ok_Nil)
  with assms(1) show ?thesis
    unfolding m' by (rule lobbies_update_ok)
qed

lemma Manager_JoinLobby_ok:
  assumes "Manager_ok h m" and "Manager_JoinLobby h m playerID lobbyID = Inr (h', m')"
  shows "Manager_ok h' m'"
proof -
  from assms(2) obtain player lobby where p: "map_of (players m) playerID = Some player"
    and l: "map_of (lobbies m) lobbyID = Some lobby"
    and g: "int (length (Lobby.Players lobby)) < Lobby.MaxPlayers lobby"
    and h': "h' = h(player := (h player)\<lparr>SessionID := lobbyID\<rparr>)"
    and m': "m' = m\<lparr>lobbies := AList.update lobbyID
               (lobby\<lparr>Lobby.Players := AList.update playerID player (Lobby.Players lobby)\<rparr>) (lobbies m)\<rparr>"
    by (auto simp add: Manager_JoinLobby_def Let_def split: option.splits if_splits)
  have i: "Player.ID (h player) = playerID"
    using assms(1) map_of_SomeD [OF p] by (auto simp add: Manager_ok_def roster_ok_def)
  have "int (length (AList.update playerID player (Lobby.Players lobby))) \<le> Lobby.MaxPlayers lobby"
    using g length_update_le [of playerID player "Lobby.Players lobby"] by linarith
  then have "Lobby_ok h (lobby\<lparr>Lobby.Players := AList.update playerID player (Lobby.Players lobby)\<rparr>)"
    using Manager_ok_lobby [OF assms(1) l] i by (simp add: Lobby_ok_def roster_ok_update)
  with assms(1) have "Manager_ok h m'"
    unfolding m' by (rule lobbies_update_ok)
  then show ?thesis
    by (rule Manager_ok_heap) (simp add: h')
qed

lemma Manager_LeaveLobby_ok:
  assumes "Manager_ok h m"
  shows "Manager_ok h (Manager_LeaveLobby m playerID lobbyID)"
proof (cases "map_of (lobbies m) lobbyID")
  case None
  with assms show ?thesis by (simp add: Manager_LeaveLobby_def)
next
  case (Some l)
  have "Lobby_ok h (Lobby_RemovePlayer l playerID)"
    using Manager_ok_lobby [OF assms Some] by (rule Lobby_RemovePlayer_ok)
  with assms show ?thesis
    by (simp add: Manager_LeaveLobby_def Some Let_def lobbies_update_ok lobbies_delete_ok)
qed


subsection \<open>Starting a session from a lobby\<close>

lemma addLobbyPlayers_ID:
  "Player.ID (fst (addLobbyPlayers h session sessionID ps) r) = Player.ID (h r)"
  by (induction ps arbitrary: h session) (auto simp add: Let_def)

lemma addLobbyPlayers_heap:
  "fst (addLobbyPlayers h session sessionID ps) r =
     (if r \<in> snd ` set ps then (h r)\<lparr>SessionID := sessionID\<rparr> else h r)"
proof (induction ps arbitrary: h session)
  case Nil
  show ?case by simp
next
  case (Cons a ps)
  obtain k player where a: "a = (k, player)" by (cases a)
  show ?case
    unfolding a by (simp add: Let_def Cons.IH image_iff)
qed

lemma addLobbyPlayers_ok:
  assumes "Session_ok h session"
  shows "Session_ok (fst (addLobbyPlayers h session sessionID ps))
           (snd (addLobbyPlayers h session sessionID ps))"
  using assms
proof (induction ps arbitrary: h session)
  case Nil
  then show ?case by simp
next
  case (Cons a ps)
  obtain k player where a: "a = (k, player)" by (cases a)
  let ?h = "h(player := (h player)\<lparr>SessionID := sessionID\<rparr>)"
  have ok: "Session_ok ?h session"
    using Cons.prems by (rule Session_ok_heap) simp
  have "Session_ok ?h (case Session_AddPlayer ?h session player of
                          Inl e \<Rightarrow> session | Inr session' \<Rightarrow> session')"
    using ok Session_AddPlayer_ok [OF ok] by (cases "Session_AddPlayer ?h session player") auto
  from Cons.IH [OF this] show ?case
    unfolding a by (simp only: addLobbyPlayers.simps Let_def)
qed

text \<open>
  When the lobby's roster is well-formed and fits into the session, the loop appends it
  to the session's roster, entry by entry.
\<close>

lemma addLobbyPlayers_roster:
  assumes "roster_ok h ps" and "\<not> IsActive session"
    and "fst ` set (Session.Players session) \<inter> fst ` set ps = {}"
    and "int (length (Session.Players session) + length ps) \<le> Session.MaxPlayers session"
  shows "snd (addLobbyPlayers h session sessionID ps) =
         session\<lparr>Session.Players := Session.Players session @ ps\<rparr>"
  using assms
proof (induction ps arbitrary: h session)
  case Nil
  then show ?case by simp
next
  case (Cons a ps)
  obtain k player where a: "a = (k, player)" by (cases a)
  let ?h = "h(player := (h player)\<lparr>SessionID := sessionID\<rparr>)"
  let ?s = "session\<lparr>Session.Players := Session.Players session @ [(k, player)]\<rparr>"
  have i: "Player.ID (h player) = k" and kn: "k \<notin> fst ` set ps" and r0: "roster_ok h ps"
    using Cons.prems(1) by (simp_all add: a roster_ok_def)
  have n: "k \<notin> fst ` set (Session.Players session)"
    and d0: "fst ` set (Session.Players session) \<inter> fst ` set ps = {}"
    using Cons.prems(3) unfolding a by auto
  have g: "\<not> int (length (Session.Players session)) \<ge> Session.MaxPlayers session"
    using Cons.prems(4) by simp
  have add: "Session_AddPlayer ?h session player = Inr ?s"
    using g Cons.prems(2) by (simp add: Session_AddPlayer_def i update_new_key [OF n])
  have r: "roster_ok ?h ps"
    using r0 by (rule roster_ok_heap) simp
  have d: "fst ` set (Session.Players ?s) \<inter> fst ` set ps = {}"
    using d0 kn by simp
  have t: "\<not> IsActive ?s"
    using Cons.prems(2) by simp
  have c: "int (length (Session.Players ?s) + length ps) \<le> Session.MaxPlayers ?s"
    using Cons.prems(4) by simp
  have "snd (addLobbyPlayers ?h ?s sessionID ps) = ?s\<lparr>Session.Players := Session.Players ?s @ ps\<rparr>"
    using r t d c by (rule Cons.IH)
  then have "snd (addLobbyPlayers ?h ?s sessionID ps) =
      session\<lparr>Session.Players := Session.Players session @ (k, player) # ps\<rparr>"
    by simp
  then show ?case
    unfolding a by (simp only: addLobbyPlayers.simps Let_def add sum.case)
qed

lemma Manager_StartSessionFromLobby_ok:
  assumes "Manager_ok h m"
    and "Manager_StartSessionFromLobby h m lobbyID quote uuid = Inr (h', m', s)"
  shows "Manager_ok h' m'"
proof -
  from assms(2) obtain lobby where l: "map_of (lobbies m) lobbyID = Some lobby"
    and g: "\<not> length (Lobby.Players lobby) < 2"
    by (auto simp add: Manager_StartSessionFromLobby_def split: option.splits if_splits)
  let ?n = "NewSession uuid (Content quote) (Quote.Author quote) (Lobby.MaxPlayers lobby)"
  let ?r = "addLobbyPlayers h ?n uuid (Lobby.Players lobby)"
  from assms(2) l g have h': "h' = fst ?r" and s: "s = snd ?r"
    and m': "m' = m\<lparr>sessions := AList.update uuid (snd ?r) (sessions m),
                     lobbies := AList.delete lobbyID (lobbies m)\<rparr>"
    by (auto simp add: Manager_StartSessionFromLobby_def Let_def case_prod_unfold)
  have "int (length (Lobby.Players lobby)) \<le> max 0 (Lobby.MaxPlayers lobby)"
    using Manager_ok_lobby [OF assms(1) l] by (simp add: Lobby_ok_def)
  with g have "0 \<le> Lobby.MaxPlayers lobby"
    by simp
  then have "Session_ok h ?n"
    by (simp add: Session_ok_def NewSession_def roster_ok_Nil)
  then have ok: "Session_ok h' (snd ?r)"
    unfolding h' by (rule addLobbyPlayers_ok)
  have "Manager_ok h' m"
    using assms(1) by (rule Manager_ok_heap) (simp add: h' addLobbyPlayers_ID)
  then have "Manager_ok h' (m\<lparr>sessions := AList.update uuid (snd ?r) (sessions m)\<rparr>)"
    using ok by (rule sessions_update_ok)
  from lobbies_delete_ok [OF this, of lobbyID] show ?thesis
    by (simp add: m')
qed

subsection \<open>Routing a progress update\<close>

lemma findSession_Some:
  assumes "findSession playerID ss = Some (k, s)"
  shows "(k, s) \<in> set ss \<and> map_of (Session.Players s) playerID \<noteq> None"
  using assms
  by (induction ss) (auto simp add: Session_GetPlayer_def split: if_splits)

lemma findSession_None:
  "findSession playerID ss = None \<longleftrightarrow>
   (\<forall>(k, s) \<in> set ss. map_of (Session.Players s) playerID = None)"
  by (induction ss) (auto simp add: Session_GetPlayer_def split: if_splits)

lemma Session_UpdatePlayerProgress_ok:
  assumes "Session_ok h s"
  shows "Session_ok (fst (Session_UpdatePlayerProgress h s playerID typedInput now1 now2 now3 now4))
           (snd (Session_UpdatePlayerProgress h s playerID typedInput now1 now2 now3 now4))"
proof -
  let ?r = "Session_UpdatePlayerProgress h s playerID typedInput now1 now2 now3 now4"
  have "Session_ok h (snd ?r)"
    using assms by (simp add: Session_ok_def Session_UpdatePlayerProgress_roster)
  then show ?thesis
    by (rule Session_ok_heap) (simp add: Session_UpdatePlayerProgress_ID)
qed

lemma sessions_progress_ok:
  assumes "Manager_ok h m" and "(k, s) \<in> set (sessions m)"
  shows "Manager_ok (fst (Session_UpdatePlayerProgress h s playerID typedInput now1 now2 now3 now4))
     (m\<lparr>sessions := AList.update k
          (snd (Session_UpdatePlayerProgress h s playerID typedInput now1 now2 now3 now4))
          (sessions m)\<rparr>)"
proof -
  let ?r = "Session_UpdatePlayerProgress h s playerID typedInput now1 now2 now3 now4"
  have "Manager_ok (fst ?r) m"
    using assms(1) by (rule Manager_ok_heap) (simp add: Session_UpdatePlayerProgress_ID)
  moreover have "Session_ok (fst ?r) (snd ?r)"
    using Manager_ok_session_mem [OF assms] by (rule Session_UpdatePlayerProgress_ok)
  ultimately show ?thesis
    by (rule sessions_update_ok)
qed

lemma Manager_UpdatePlayerProgress_ok:
  assumes "Manager_ok h m"
    and "Manager_UpdatePlayerProgress h m playerID typedInput now1 now2 now3 now4 = Inr (h', m')"
  shows "Manager_ok h' m'"
proof -
  from assms(2) obtain k s where f: "(k, s) \<in> set (sessions m)"
    and h': "h' = fst (Session_UpdatePlayerProgress h s playerID typedInput now1 now2 now3 now4)"
    and m': "m' = m\<lparr>sessions := AList.update k
               (snd (Session_UpdatePlayerProgress h s playerID typedInput now1 now2 now3 now4))
               (sessions m)\<rparr>"
    by (auto simp add: Manager_UpdatePlayerProgress_def Let_def case_prod_unfold
        split: option.splits dest: map_of_SomeD findSession_Some)
  show ?thesis
    unfolding h' m' using assms(1) f by (rule sessions_progress_ok)
qed


subsection \<open>The state of a run of calls that follow one another is well-formed\<close>

lemma exec_ok:
  assumes "Manager_ok h m" and "allowed c (h, m)"
  shows "Manager_ok (fst (exec c (h, m))) (snd (exec c (h, m)))"
proof (cases c)
  case (AddPlayerOp player playerID playerName now1 now2)
  with assms(2) have "player \<notin> refs m" by simp
  with assms(1) show ?thesis
    unfolding AddPlayerOp
    by (cases "Manager_AddPlayer h m player playerID playerName now1 now2")
       (auto dest: Manager_AddPlayer_ok)
next
  case (RemovePlayerOp playerID)
  with assms(1) show ?thesis
    by (simp add: Manager_RemovePlayer_ok)
next
  case (CreateLobbyOp maxPlayers uuid now)
  with assms(1) show ?thesis
    by (cases "Manager_CreateLobby m maxPlayers uuid now") (auto dest: Manager_CreateLobby_ok)
next
  case (JoinLobbyOp playerID lobbyID)
  with assms(1) show ?thesis
    by (cases "Manager_JoinLobby h m playerID lobbyID") (auto dest: Manager_JoinLobby_ok)
next
  case (LeaveLobbyOp playerID lobbyID)
  with assms(1) show ?thesis
    by (simp add: Manager_LeaveLobby_ok)
next
  case (StartSessionFromLobbyOp lobbyID quote uuid)
  with assms(1) show ?thesis
    by (cases "Manager_StartSessionFromLobby h m lobbyID quote uuid")
       (auto dest: Manager_StartSessionFromLobby_ok)
next
  case (UpdatePlayerProgressOp playerID typedInput now1 now2 now3 now4)
  with assms(1) show ?thesis
    by (cases "Manager_UpdatePlayerProgress h m playerID typedInput now1 now2 now3 now4")
       (auto dest: Manager_UpdatePlayerProgress_ok)
next
  case (LobbyAddPlayerOp lobbyID player)
  show ?thesis
  proof (cases "map_of (lobbies m) lobbyID")
    case None
    with assms(1) show ?thesis
      by (simp add: LobbyAddPlayerOp Manager_GetLobby_def)
  next
    case (Some l)
    note ok = Manager_ok_lobby [OF assms(1) Some]
    show ?thesis
      using assms(1) Lobby_AddPlayer_ok [OF ok]
      by (cases "Lobby_AddPlayer h l player")
         (simp_all add: LobbyAddPlayerOp Manager_GetLobby_def Some lobbies_update_ok)
  qed
next
  case (LobbyRemovePlayerOp lobbyID playerID)
  show ?thesis
  proof (cases "map_of (lobbies m) lobbyID")
    case None
    with assms(1) show ?thesis
      by (simp add: LobbyRemovePlayerOp Manager_GetLobby_def)
  next
    case (Some l)
    note ok = Manager_ok_lobby [OF assms(1) Some]
    show ?thesis
      using assms(1) Lobby_RemovePlayer_ok [OF ok]
      by (simp add: LobbyRemovePlayerOp Manager_GetLobby_def Some lobbies_update_ok)
  qed
next
  case (SessionAddPlayerOp sessionID player)
  show ?thesis
  proof (cases "map_of (sessions m) sessionID")
    case None
    with assms(1) show ?thesis
      by (simp add: SessionAddPlayerOp Manager_GetSession_def)
  next
    case (Some s)
    note ok = Manager_ok_session [OF assms(1) Some]
    show ?thesis
      using assms(1) Session_AddPlayer_ok [OF ok]
      by (cases "Session_AddPlayer h s player")
         (simp_all add: SessionAddPlayerOp Manager_GetSession_def Some sessions_update_ok)
  qed
next
  case (SessionRemovePlayerOp sessionID playerID)
  show ?thesis
  proof (cases "map_of (sessions m) sessionID")
    case None
    with assms(1) show ?thesis
      by (simp add: SessionRemovePlayerOp Manager_GetSession_def)
  next
    case (Some s)
    note ok = Manager_ok_session [OF assms(1) Some]
    show ?thesis
      using assms(1) Session_RemovePlayer_ok [OF ok]
      by (simp add: SessionRemovePlayerOp Manager_GetSession_def Some sessions_update_ok)
  qed
next
  case (SessionStartOp sessionID now)
  show ?thesis
  proof (cases "map_of (sessions m) sessionID")
    case None
    with assms(1) show ?thesis
      by (simp add: SessionStartOp Manager_GetSession_def)
  next
    case (Some s)
    note ok = Manager_ok_session [OF assms(1) Some]
    show ?thesis
      using assms(1) Session_Start_ok [OF ok]
      by (cases "Session_Start s now")
         (simp_all add: SessionStartOp Manager_GetSession_def Some sessions_update_ok)
  qed
next
  case (SessionCountdownOp sessionID i)
  show ?thesis
  proof (cases "map_of (sessions m) sessionID")
    case None
    with assms(1) show ?thesis
      by (simp add: SessionCountdownOp Manager_GetSession_def)
  next
    case (Some s)
    note ok = Manager_ok_session [OF assms(1) Some]
    show ?thesis
      using assms(1) Session_setCountdown_ok [OF ok]
      by (simp add: SessionCountdownOp Manager_GetSession_def Some sessions_update_ok)
  qed
next
  case (SessionUpdatePlayerProgressOp sessionID playerID typedInput now1 now2 now3 now4)
  show ?thesis
  proof (cases "map_of (sessions m) sessionID")
    case None
    with assms(1) show ?thesis
      by (simp add: SessionUpdatePlayerProgressOp Manager_GetSession_def)
  next
    case (Some s)
    from sessions_progress_ok [OF assms(1) map_of_SomeD [OF Some],
        of playerID typedInput now1 now2 now3 now4]
    show ?thesis
      by (simp add: SessionUpdatePlayerProgressOp Manager_GetSession_def Some case_prod_unfold
          Let_def)
  qed
qed

lemma NewManager_ok: "Manager_ok h NewManager"
  by (simp add: Manager_ok_def NewManager_def roster_ok_Nil)

lemma serial_ok:
  assumes "serial hm"
  shows "Manager_ok (fst hm) (snd hm)"
  using assms
proof (induction rule: serial.induct)
  case (init h)
  show ?case by (simp add: NewManager_ok)
next
  case (step hm c)
  obtain h m where hm: "hm = (h, m)" by (cases hm)
  from step show ?case
    unfolding hm by (simp add: exec_ok)
qed


subsection \<open>The example runs\<close>

lemmas Manager_defs = NewManager_def Manager_AddPlayer_def Manager_RemovePlayer_def
  Manager_CreateLobby_def Manager_JoinLobby_def Manager_LeaveLobby_def
  Manager_StartSessionFromLobby_def Manager_UpdatePlayerProgress_def Manager_GetLobby_def
  Manager_GetSession_def Manager_GetPlayer_def Lobby_AddPlayer_def Lobby_RemovePlayer_def
  Lobby_GetPlayers_def refs_def

lemmas ex_uuids = ex_uuid1_def ex_uuid2_def ex_uuid3_def ex_uuid4_def

lemma serial_run:
  assumes "serial hm" and "allowed_run cs hm"
  shows "serial (run cs hm)"
  using assms
proof (induction cs arbitrary: hm)
  case Nil
  then show ?case by simp
next
  case (Cons c cs)
  then show ?case by (simp add: serial.step)
qed

lemma serial_ex_empty: "serial ex_empty"
  unfolding ex_empty_def by (rule serial.init)

lemma ex_lobbies_manager:
  "snd ex_lobbies =
     \<lparr>sessions = [],
      players = [(''a'', 1), (''b'', 2), (''c'', 3)],
      lobbies =
        [(ex_uuid1, \<lparr>Lobby.ID = ex_uuid1, Lobby.Players = [(''a'', 1), (''b'', 2)],
                     Lobby.MaxPlayers = 2, CreatedAt = 2000\<rparr>),
         (ex_uuid2, \<lparr>Lobby.ID = ex_uuid2, Lobby.Players = [(''a'', 1), (''b'', 2)],
                     Lobby.MaxPlayers = 2, CreatedAt = 2000\<rparr>),
         (ex_uuid4, \<lparr>Lobby.ID = ex_uuid4, Lobby.Players = [],
                     Lobby.MaxPlayers = 4, CreatedAt = 2000\<rparr>)]\<rparr>"
  by (simp add: ex_lobbies_def ex_empty_def ex_uuids Manager_defs Let_def)

lemma ex_lobbies_heap:
  "Player.ID (fst ex_lobbies 1) = ''a'' \<and> Player.ID (fst ex_lobbies 2) = ''b'' \<and>
   Player.ID (fst ex_lobbies 3) = ''c''"
  by (simp add: ex_lobbies_def ex_empty_def ex_uuids Manager_defs Let_def NewPlayer_def)

lemma serial_ex_lobbies: "serial ex_lobbies"
  unfolding ex_lobbies_def
  by (rule serial_run [OF serial_ex_empty])
     (simp add: ex_empty_def ex_uuids Manager_defs Let_def)


lemma ex_started_unfold:
  "ex_started =
     exec (AddPlayerOp 4 ex_uuid3 ''eve'' 5000 5000)
       (exec (StartSessionFromLobbyOp ex_uuid1 ex_quote ex_uuid3) (fst ex_lobbies, snd ex_lobbies))"
  by (simp add: ex_started_def)

lemma ex_started_manager:
  "snd ex_started =
     \<lparr>sessions =
        [(ex_uuid3, \<lparr>Session.ID = ex_uuid3, Prompt = ''cat'', Session.Author = ''anon'',
                     Session.Players = [(''a'', 1), (''b'', 2)], Session.MaxPlayers = 2,
                     Session.StartTime = 0, Session.EndTime = 0, IsActive = False,
                     Session.IsFinished = False, Countdown = 0\<rparr>)],
      players = [(''a'', 1), (''b'', 2), (''c'', 3), (ex_uuid3, 4)],
      lobbies =
        [(ex_uuid2, \<lparr>Lobby.ID = ex_uuid2, Lobby.Players = [(''a'', 1), (''b'', 2)],
                     Lobby.MaxPlayers = 2, CreatedAt = 2000\<rparr>),
         (ex_uuid4, \<lparr>Lobby.ID = ex_uuid4, Lobby.Players = [],
                     Lobby.MaxPlayers = 4, CreatedAt = 2000\<rparr>)]\<rparr>"
  using ex_lobbies_heap
  by (simp add: ex_started_unfold ex_lobbies_manager ex_uuids ex_quote_def Manager_defs
      Let_def NewSession_def Session_AddPlayer_def zeroTime_def)

lemma serial_ex_started: "serial ex_started"
proof -
  have "allowed_run [StartSessionFromLobbyOp ex_uuid1 ex_quote ex_uuid3,
          AddPlayerOp 4 ex_uuid3 ''eve'' 5000 5000] (fst ex_lobbies, snd ex_lobbies)"
    using ex_lobbies_heap
    by (simp add: ex_lobbies_manager ex_uuids ex_quote_def Manager_defs
        Let_def NewSession_def Session_AddPlayer_def zeroTime_def)
  then have "allowed_run [StartSessionFromLobbyOp ex_uuid1 ex_quote ex_uuid3,
          AddPlayerOp 4 ex_uuid3 ''eve'' 5000 5000] ex_lobbies"
    by (simp only: prod.collapse)
  with serial_ex_lobbies show ?thesis
    unfolding ex_started_def by (rule serial_run)
qed

lemma ex_negative_manager:
  "snd ex_negative =
     \<lparr>sessions = [], players = [],
      lobbies = [(ex_uuid1, \<lparr>Lobby.ID = ex_uuid1, Lobby.Players = [],
                              Lobby.MaxPlayers = - 1, CreatedAt = 2000\<rparr>)]\<rparr>"
  by (simp add: ex_negative_def ex_empty_def Manager_defs Let_def)

lemma serial_ex_negative: "serial ex_negative"
  unfolding ex_negative_def
  by (rule serial_run [OF serial_ex_empty]) (simp add: ex_empty_def)


text \<open>
  The overlap on the lobby with one seat. \<open>JoinLobby\<close> is its test followed by its store;
  in \<open>ex_overlap\<close> the call \<open>lobby.AddPlayer(b)\<close> has run between the two.
\<close>

lemma Manager_JoinLobby_parts:
  "Manager_JoinLobby h m playerID lobbyID =
     (case Manager_JoinLobby_test m playerID lobbyID of
        Inl e \<Rightarrow> Inl e
      | Inr player \<Rightarrow> Inr (Manager_JoinLobby_store h m playerID lobbyID player))"
  by (simp add: Manager_JoinLobby_def Manager_JoinLobby_test_def Manager_JoinLobby_store_def
      Let_def split: option.splits)

lemma ex_one_seat_manager:
  "snd ex_one_seat =
     \<lparr>sessions = [],
      players = [(''a'', 1), (''b'', 2)],
      lobbies =
        [(ex_uuid1, \<lparr>Lobby.ID = ex_uuid1, Lobby.Players = [],
                     Lobby.MaxPlayers = 1, CreatedAt = 2000\<rparr>)]\<rparr>"
  by (simp add: ex_one_seat_def ex_empty_def ex_uuids Manager_defs Let_def)

lemma ex_one_seat_heap:
  "Player.ID (fst ex_one_seat 1) = ''a'' \<and> Player.ID (fst ex_one_seat 2) = ''b''"
  by (simp add: ex_one_seat_def ex_empty_def ex_uuids Manager_defs Let_def NewPlayer_def)

lemma serial_ex_one_seat: "serial ex_one_seat"
  unfolding ex_one_seat_def
  by (rule serial_run [OF serial_ex_empty])
     (simp add: ex_empty_def ex_uuids Manager_defs Let_def)

lemma ex_one_seat_test:
  "Manager_JoinLobby_test (snd ex_one_seat) ''a'' ex_uuid1 = Inr 1"
  by (simp add: ex_one_seat_manager Manager_JoinLobby_test_def ex_uuids)

lemma ex_one_seat_AddPlayer_pair:
  "snd (exec (LobbyAddPlayerOp ex_uuid1 2) (fst ex_one_seat, snd ex_one_seat)) =
     \<lparr>sessions = [],
      players = [(''a'', 1), (''b'', 2)],
      lobbies =
        [(ex_uuid1, \<lparr>Lobby.ID = ex_uuid1, Lobby.Players = [(''b'', 2)],
                     Lobby.MaxPlayers = 1, CreatedAt = 2000\<rparr>)]\<rparr> \<and>
   fst (exec (LobbyAddPlayerOp ex_uuid1 2) (fst ex_one_seat, snd ex_one_seat)) = fst ex_one_seat"
  using ex_one_seat_heap
  by (simp add: ex_one_seat_manager Manager_defs ex_uuids)

lemma ex_one_seat_AddPlayer:
  "snd (exec (LobbyAddPlayerOp ex_uuid1 2) ex_one_seat) =
     \<lparr>sessions = [],
      players = [(''a'', 1), (''b'', 2)],
      lobbies =
        [(ex_uuid1, \<lparr>Lobby.ID = ex_uuid1, Lobby.Players = [(''b'', 2)],
                     Lobby.MaxPlayers = 1, CreatedAt = 2000\<rparr>)]\<rparr> \<and>
   fst (exec (LobbyAddPlayerOp ex_uuid1 2) ex_one_seat) = fst ex_one_seat"
  using ex_one_seat_AddPlayer_pair by simp

lemma ex_overlap_manager:
  "snd ex_overlap =
     \<lparr>sessions = [],
      players = [(''a'', 1), (''b'', 2)],
      lobbies =
        [(ex_uuid1, \<lparr>Lobby.ID = ex_uuid1, Lobby.Players = [(''b'', 2), (''a'', 1)],
                     Lobby.MaxPlayers = 1, CreatedAt = 2000\<rparr>)]\<rparr>"
  unfolding ex_overlap_def
  apply (simp only: ex_one_seat_AddPlayer ex_one_seat_test sum.sel)
  apply (simp add: Manager_JoinLobby_store_def ex_uuids)
  done

lemma ex_overlap_heap:
  "Player.ID (fst ex_overlap 1) = ''a'' \<and> Player.ID (fst ex_overlap 2) = ''b''"
  unfolding ex_overlap_def
  apply (simp only: ex_one_seat_AddPlayer ex_one_seat_test sum.sel)
  using ex_one_seat_heap
  apply (simp add: Manager_JoinLobby_store_def ex_uuids)
  done

subsection \<open>CreateLobby\<close>

lemma new_uuid_fresh:
  assumes "finite used"
  shows "new_uuid g used \<notin> used"
  using Rep_uuid_source [of g] assms unfolding new_uuid_def by blast

lemma finite_Manager_ids: "finite (Manager_ids m)"
  by (simp add: Manager_ids_def)

lemma new_uuid_not_lobby: "new_uuid g (Manager_ids m) \<notin> fst ` set (lobbies m)"
  using new_uuid_fresh [OF finite_Manager_ids, of g m] by (simp add: Manager_ids_def)

text \<open>
  Claim C5, as stated, fails: \<open>CreateLobby\<close> tests nothing. With capacity 1, and with
  capacity -1, it returns a lobby and no error.
\<close>

theorem CreateLobby_small_capacity_counterexample:
  "Manager_CreateLobby NewManager 1 ex_uuid1 2000 =
     Inr (\<lparr>sessions = [], players = [],
           lobbies = [(ex_uuid1, \<lparr>Lobby.ID = ex_uuid1, Lobby.Players = [],
                                   Lobby.MaxPlayers = 1, CreatedAt = 2000\<rparr>)]\<rparr>,
          \<lparr>Lobby.ID = ex_uuid1, Lobby.Players = [], Lobby.MaxPlayers = 1, CreatedAt = 2000\<rparr>) \<and>
   Manager_CreateLobby NewManager (- 1) ex_uuid1 2000 =
     Inr (\<lparr>sessions = [], players = [],
           lobbies = [(ex_uuid1, \<lparr>Lobby.ID = ex_uuid1, Lobby.Players = [],
                                   Lobby.MaxPlayers = - 1, CreatedAt = 2000\<rparr>)]\<rparr>,
          \<lparr>Lobby.ID = ex_uuid1, Lobby.Players = [], Lobby.MaxPlayers = - 1, CreatedAt = 2000\<rparr>)"
  by (simp add: Manager_CreateLobby_def NewManager_def Let_def)

text \<open>
  Claim C5, amended. \<open>CreateLobby\<close> succeeds for every capacity, also one below 2. With
  the identifier that a source of fresh identifiers gives, the lobby it returns has an
  identifier that is not yet a key of the lobby registry, no members, the capacity asked
  for and the time of the call; the lobby registry is the old one with this lobby added
  under its identifier, and the players and the sessions are as before.
\<close>

theorem CreateLobby_always_succeeds:
  "\<exists>m' lobby.
     Manager_CreateLobby m maxPlayers (new_uuid g (Manager_ids m)) now = Inr (m', lobby) \<and>
     Lobby.ID lobby = new_uuid g (Manager_ids m) \<and>
     Lobby.ID lobby \<notin> fst ` set (lobbies m) \<and>
     Lobby.Players lobby = [] \<and>
     Lobby.MaxPlayers lobby = maxPlayers \<and>
     CreatedAt lobby = now \<and>
     lobbies m' = lobbies m @ [(Lobby.ID lobby, lobby)] \<and>
     sessions m' = sessions m \<and> players m' = players m"
proof -
  let ?u = "new_uuid g (Manager_ids m)"
  let ?l = "\<lparr>Lobby.ID = ?u, Lobby.Players = [], Lobby.MaxPlayers = maxPlayers, CreatedAt = now\<rparr>"
  have f: "?u \<notin> fst ` set (lobbies m)"
    by (rule new_uuid_not_lobby)
  have e: "Manager_CreateLobby m maxPlayers ?u now =
           Inr (m\<lparr>lobbies := lobbies m @ [(?u, ?l)]\<rparr>, ?l)"
    by (simp add: Manager_CreateLobby_def Let_def update_new_key [OF f])
  show ?thesis
  proof (intro exI conjI)
    show "Manager_CreateLobby m maxPlayers ?u now = Inr (m\<lparr>lobbies := lobbies m @ [(?u, ?l)]\<rparr>, ?l)"
      by (rule e)
    show "Lobby.ID ?l \<notin> fst ` set (lobbies m)"
      using f by simp
  qed simp_all
qed

subsection \<open>Capacity\<close>

text \<open>
  Claim C8, as stated, fails for a lobby that is created with a negative capacity, which
  \<open>CreateLobby\<close> accepts: it has 0 members, more than its \<open>MaxPlayers\<close> of -1. A
  \<open>JoinLobby\<close> on a full lobby by a player that is not registered fails with
  \<open>PlayerNotFound\<close>, not with \<open>LobbyFull\<close>. And \<open>JoinLobby\<close> tests and writes
  \<open>lobby.Players\<close> under the manager's lock while \<open>Lobby.AddPlayer\<close> does so under the
  lobby's: in \<open>ex_one_seat\<close> the test of \<open>JoinLobby(a)\<close> passes, \<open>lobby.AddPlayer(b)\<close>
  then takes the one seat, and the store of \<open>JoinLobby(a)\<close> makes \<open>a\<close> the second member
  of the lobby of capacity 1.
\<close>

theorem capacity_negative_counterexample:
  "serial ex_negative \<and>
   Manager_GetLobby (snd ex_negative) ex_uuid1 =
     Some \<lparr>Lobby.ID = ex_uuid1, Lobby.Players = [], Lobby.MaxPlayers = - 1, CreatedAt = 2000\<rparr> \<and>
   \<not> int (length (Lobby.Players
         \<lparr>Lobby.ID = ex_uuid1, Lobby.Players = [], Lobby.MaxPlayers = - 1, CreatedAt = 2000\<rparr>))
       \<le> Lobby.MaxPlayers
         \<lparr>Lobby.ID = ex_uuid1, Lobby.Players = [], Lobby.MaxPlayers = - 1, CreatedAt = 2000\<rparr> \<and>
   serial ex_started \<and>
   Manager_GetLobby (snd ex_started) ex_uuid2 =
     Some \<lparr>Lobby.ID = ex_uuid2, Lobby.Players = [(''a'', 1), (''b'', 2)],
            Lobby.MaxPlayers = 2, CreatedAt = 2000\<rparr> \<and>
   Manager_GetPlayer (snd ex_started) ''zed'' = None \<and>
   Manager_JoinLobby (fst ex_started) (snd ex_started) ''zed'' ex_uuid2 = Inl PlayerNotFound \<and>
   serial ex_one_seat \<and>
   Manager_GetLobby (snd ex_one_seat) ex_uuid1 =
     Some \<lparr>Lobby.ID = ex_uuid1, Lobby.Players = [], Lobby.MaxPlayers = 1, CreatedAt = 2000\<rparr> \<and>
   Manager_JoinLobby_test (snd ex_one_seat) ''a'' ex_uuid1 = Inr 1 \<and>
   Manager_GetLobby (snd (exec (LobbyAddPlayerOp ex_uuid1 2) ex_one_seat)) ex_uuid1 =
     Some \<lparr>Lobby.ID = ex_uuid1, Lobby.Players = [(''b'', 2)],
            Lobby.MaxPlayers = 1, CreatedAt = 2000\<rparr> \<and>
   Manager_GetLobby (snd ex_overlap) ex_uuid1 =
     Some \<lparr>Lobby.ID = ex_uuid1, Lobby.Players = [(''b'', 2), (''a'', 1)],
            Lobby.MaxPlayers = 1, CreatedAt = 2000\<rparr>"
proof -
  have 1: "Manager_GetLobby (snd ex_negative) ex_uuid1 =
     Some \<lparr>Lobby.ID = ex_uuid1, Lobby.Players = [], Lobby.MaxPlayers = - 1, CreatedAt = 2000\<rparr>"
    by (simp add: ex_negative_manager Manager_GetLobby_def)
  have 2: "\<not> int (length (Lobby.Players
         \<lparr>Lobby.ID = ex_uuid1, Lobby.Players = [], Lobby.MaxPlayers = - 1, CreatedAt = 2000\<rparr>))
       \<le> Lobby.MaxPlayers
         \<lparr>Lobby.ID = ex_uuid1, Lobby.Players = [], Lobby.MaxPlayers = - 1, CreatedAt = 2000\<rparr>"
    by simp
  have 3: "Manager_GetLobby (snd ex_started) ex_uuid2 =
     Some \<lparr>Lobby.ID = ex_uuid2, Lobby.Players = [(''a'', 1), (''b'', 2)],
            Lobby.MaxPlayers = 2, CreatedAt = 2000\<rparr>"
    and 4: "Manager_GetPlayer (snd ex_started) ''zed'' = None"
    and 5: "Manager_JoinLobby (fst ex_started) (snd ex_started) ''zed'' ex_uuid2 = Inl PlayerNotFound"
    by (simp_all add: ex_started_manager ex_uuids Manager_GetLobby_def Manager_GetPlayer_def
        Manager_JoinLobby_def)
  have 6: "Manager_GetLobby (snd ex_one_seat) ex_uuid1 =
     Some \<lparr>Lobby.ID = ex_uuid1, Lobby.Players = [], Lobby.MaxPlayers = 1, CreatedAt = 2000\<rparr>"
    by (simp add: ex_one_seat_manager Manager_GetLobby_def)
  have 7: "Manager_GetLobby (snd (exec (LobbyAddPlayerOp ex_uuid1 2) ex_one_seat)) ex_uuid1 =
     Some \<lparr>Lobby.ID = ex_uuid1, Lobby.Players = [(''b'', 2)],
            Lobby.MaxPlayers = 1, CreatedAt = 2000\<rparr>"
    by (simp add: ex_one_seat_AddPlayer Manager_GetLobby_def)
  have 8: "Manager_GetLobby (snd ex_overlap) ex_uuid1 =
     Some \<lparr>Lobby.ID = ex_uuid1, Lobby.Players = [(''b'', 2), (''a'', 1)],
            Lobby.MaxPlayers = 1, CreatedAt = 2000\<rparr>"
    by (simp add: ex_overlap_manager Manager_GetLobby_def)
  from serial_ex_negative 1 2 serial_ex_started 3 4 5 serial_ex_one_seat 6 ex_one_seat_test 7 8
  show ?thesis
    by (intro conjI)
qed

text \<open>
  Claim C8, amended. The tests: \<open>JoinLobby\<close> of a registered player and \<open>Lobby.AddPlayer\<close>
  fail with \<open>LobbyFull\<close> on a lobby that has \<open>MaxPlayers\<close> members or more, and
  \<open>Session.AddPlayer\<close> fails with \<open>SessionFull\<close> on such a session. The bound: in the
  state of every run in which each call ends before the next one begins, every lobby has
  distinct members and no more of them than its capacity, or than 0 when its capacity is
  negative, and every session has distinct members and no more than its capacity. Nothing
  is said of the states that overlapping calls reach.
\<close>

theorem capacity_never_exceeded:
  "(\<forall>player lobby.
      map_of (players m) playerID = Some player \<and>
      map_of (lobbies m) lobbyID = Some lobby \<and>
      Lobby.MaxPlayers lobby \<le> int (length (Lobby.Players lobby)) \<longrightarrow>
      Manager_JoinLobby h m playerID lobbyID = Inl LobbyFull) \<and>
   (\<forall>l. Lobby.MaxPlayers l \<le> int (length (Lobby.Players l)) \<longrightarrow>
      Lobby_AddPlayer h l r = Inl LobbyFull) \<and>
   (\<forall>s. Session.MaxPlayers s \<le> int (length (Session.Players s)) \<longrightarrow>
      Session_AddPlayer h s r = Inl SessionFull) \<and>
   (serial (h, m) \<longrightarrow>
      (\<forall>(k, l) \<in> set (lobbies m).
         distinct (map fst (Lobby.Players l)) \<and>
         int (length (Lobby.Players l)) \<le> max 0 (Lobby.MaxPlayers l)) \<and>
      (\<forall>(k, s) \<in> set (sessions m).
         distinct (map fst (Session.Players s)) \<and>
         int (length (Session.Players s)) \<le> Session.MaxPlayers s))"
proof -
  have 1: "\<forall>(k, l) \<in> set (lobbies m).
            distinct (map fst (Lobby.Players l)) \<and>
            int (length (Lobby.Players l)) \<le> max 0 (Lobby.MaxPlayers l)"
    if "Manager_ok h m"
    using that unfolding Manager_ok_def Lobby_ok_def roster_ok_def by blast
  have 2: "\<forall>(k, s) \<in> set (sessions m).
            distinct (map fst (Session.Players s)) \<and>
            int (length (Session.Players s)) \<le> Session.MaxPlayers s"
    if "Manager_ok h m"
    using that unfolding Manager_ok_def Session_ok_def roster_ok_def by blast
  have 3: "\<forall>player lobby.
            map_of (players m) playerID = Some player \<and>
            map_of (lobbies m) lobbyID = Some lobby \<and>
            Lobby.MaxPlayers lobby \<le> int (length (Lobby.Players lobby)) \<longrightarrow>
            Manager_JoinLobby h m playerID lobbyID = Inl LobbyFull"
    by (simp add: Manager_JoinLobby_def)
  have 4: "\<forall>l. Lobby.MaxPlayers l \<le> int (length (Lobby.Players l)) \<longrightarrow>
            Lobby_AddPlayer h l r = Inl LobbyFull"
    by (simp add: Lobby_AddPlayer_def)
  have 5: "\<forall>s. Session.MaxPlayers s \<le> int (length (Session.Players s)) \<longrightarrow>
            Session_AddPlayer h s r = Inl SessionFull"
    by (simp add: Session_AddPlayer_def)
  have 6: "serial (h, m) \<longrightarrow>
      (\<forall>(k, l) \<in> set (lobbies m).
         distinct (map fst (Lobby.Players l)) \<and>
         int (length (Lobby.Players l)) \<le> max 0 (Lobby.MaxPlayers l)) \<and>
      (\<forall>(k, s) \<in> set (sessions m).
         distinct (map fst (Session.Players s)) \<and>
         int (length (Session.Players s)) \<le> Session.MaxPlayers s)"
  proof
    assume "serial (h, m)"
    from serial_ok [OF this] have ok: "Manager_ok h m"
      by simp
    from 1 [OF ok] 2 [OF ok]
    show "(\<forall>(k, l) \<in> set (lobbies m).
         distinct (map fst (Lobby.Players l)) \<and>
         int (length (Lobby.Players l)) \<le> max 0 (Lobby.MaxPlayers l)) \<and>
      (\<forall>(k, s) \<in> set (sessions m).
         distinct (map fst (Session.Players s)) \<and>
         int (length (Session.Players s)) \<le> Session.MaxPlayers s)"
      by (rule conjI)
  qed
  from 3 4 5 6 show ?thesis
    by (intro conjI)
qed

theorem capacity_never_exceeded_witness:
  "serial ex_started \<and>
   map_of (players (snd ex_started)) ''c'' = Some 3 \<and>
   Lobby.MaxPlayers (the (map_of (lobbies (snd ex_started)) ex_uuid2))
     \<le> int (length (Lobby.Players (the (map_of (lobbies (snd ex_started)) ex_uuid2)))) \<and>
   Manager_JoinLobby (fst ex_started) (snd ex_started) ''c'' ex_uuid2 = Inl LobbyFull \<and>
   Lobby_AddPlayer (fst ex_started) (the (map_of (lobbies (snd ex_started)) ex_uuid2)) 3
     = Inl LobbyFull \<and>
   Session.MaxPlayers (the (map_of (sessions (snd ex_started)) ex_uuid3))
     \<le> int (length (Session.Players (the (map_of (sessions (snd ex_started)) ex_uuid3)))) \<and>
   Session_AddPlayer (fst ex_started) (the (map_of (sessions (snd ex_started)) ex_uuid3)) 3
     = Inl SessionFull \<and>
   int (length (Lobby.Players (the (map_of (lobbies (snd ex_started)) ex_uuid2)))) \<le> 2 \<and>
   int (length (Session.Players (the (map_of (sessions (snd ex_started)) ex_uuid3)))) \<le> 2"
proof -
  let ?l = "the (map_of (lobbies (snd ex_started)) ex_uuid2)"
  let ?s = "the (map_of (sessions (snd ex_started)) ex_uuid3)"
  have r: "serial (fst ex_started, snd ex_started)"
    using serial_ex_started by simp
  have p: "map_of (players (snd ex_started)) ''c'' = Some 3"
    by (simp add: ex_started_manager ex_uuids)
  have l: "map_of (lobbies (snd ex_started)) ex_uuid2 = Some ?l"
    and lm: "(ex_uuid2, ?l) \<in> set (lobbies (snd ex_started))"
    and lf: "Lobby.MaxPlayers ?l \<le> int (length (Lobby.Players ?l))" and l2: "Lobby.MaxPlayers ?l = 2"
    by (simp_all add: ex_started_manager ex_uuids)
  have sm: "(ex_uuid3, ?s) \<in> set (sessions (snd ex_started))"
    and sf: "Session.MaxPlayers ?s \<le> int (length (Session.Players ?s))"
    and s2: "Session.MaxPlayers ?s = 2"
    by (simp_all add: ex_started_manager ex_uuids)
  note t = capacity_never_exceeded [of "snd ex_started" "''c''" ex_uuid2 "fst ex_started" 3]
  from t p l lf have j: "Manager_JoinLobby (fst ex_started) (snd ex_started) ''c'' ex_uuid2 = Inl LobbyFull"
    by blast
  from t lf have a: "Lobby_AddPlayer (fst ex_started) ?l 3 = Inl LobbyFull"
    by blast
  from t sf have b: "Session_AddPlayer (fst ex_started) ?s 3 = Inl SessionFull"
    by blast
  from t r lm l2 have c: "int (length (Lobby.Players ?l)) \<le> 2"
    by fastforce
  from t r sm s2 have d: "int (length (Session.Players ?s)) \<le> 2"
    by fastforce
  from serial_ex_started p lf j a sf b c d show ?thesis
    by (intro conjI)
qed

subsection \<open>StartSessionFromLobby\<close>

lemma addLobbyPlayers_fields:
  "snd (addLobbyPlayers h session sessionID ps) =
     session\<lparr>Session.Players := Session.Players (snd (addLobbyPlayers h session sessionID ps))\<rparr>"
proof (induction ps arbitrary: h session)
  case Nil
  show ?case by simp
next
  case (Cons a ps)
  obtain k player where a: "a = (k, player)" by (cases a)
  let ?h = "h(player := (h player)\<lparr>SessionID := sessionID\<rparr>)"
  let ?s = "case Session_AddPlayer ?h session player of
              Inl e \<Rightarrow> session | Inr session' \<Rightarrow> session'"
  have s: "?s = session\<lparr>Session.Players := Session.Players ?s\<rparr>"
    by (simp add: Session_AddPlayer_def)
  have u: "addLobbyPlayers h session sessionID (a # ps) = addLobbyPlayers ?h ?s sessionID ps"
    unfolding a by (simp only: addLobbyPlayers.simps Let_def)
  have "snd (addLobbyPlayers ?h ?s sessionID ps) =
        ?s\<lparr>Session.Players := Session.Players (snd (addLobbyPlayers ?h ?s sessionID ps))\<rparr>"
    by (rule Cons.IH)
  also have "\<dots> = session\<lparr>Session.Players := Session.Players (snd (addLobbyPlayers ?h ?s sessionID ps))\<rparr>"
    by (subst s) simp
  finally show ?case
    unfolding u .
qed

text \<open>
  Claim C2, as stated, fails. In \<open>ex_lobbies\<close> the hand-off of the first lobby succeeds,
  and the session it returns is not active and has countdown 0: \<open>StartSessionFromLobby\<close>
  never calls \<open>Start\<close>. Player \<open>a\<close>, who had joined the second lobby as well, is
  afterwards in the session and still in that lobby. And the lobby of \<open>ex_overlap\<close>, which
  an overlap of \<open>JoinLobby\<close> and \<open>Lobby.AddPlayer\<close> has filled beyond its capacity, is
  handed off without one of its two members: the session has room for one, which in the
  order of the example is \<open>b\<close>.
\<close>

theorem StartSessionFromLobby_counterexample:
  "serial ex_lobbies \<and>
   (case ex_hand_off of
      Inl e \<Rightarrow> False
    | Inr (h', m', s) \<Rightarrow>
        \<not> IsActive s \<and> Countdown s = 0 \<and>
        map_of (sessions m') ex_uuid3 = Some s \<and>
        map_of (Session.Players s) ''a'' = Some 1 \<and>
        (case map_of (lobbies m') ex_uuid2 of
           None \<Rightarrow> False
         | Some l \<Rightarrow> map_of (Lobby.Players l) ''a'' = Some 1)) \<and>
   Manager_GetLobby (snd ex_overlap) ex_uuid1 =
     Some \<lparr>Lobby.ID = ex_uuid1, Lobby.Players = [(''b'', 2), (''a'', 1)],
            Lobby.MaxPlayers = 1, CreatedAt = 2000\<rparr> \<and>
   (case ex_crowded_hand_off of
      Inl e \<Rightarrow> False
    | Inr (h', m', s) \<Rightarrow>
        Session.Players s = [(''b'', 2)] \<and> Session.MaxPlayers s = 1 \<and>
        Manager_GetLobby m' ex_uuid1 = None)"
proof -
  have 1: "case ex_hand_off of
      Inl e \<Rightarrow> False
    | Inr (h', m', s) \<Rightarrow>
        \<not> IsActive s \<and> Countdown s = 0 \<and>
        map_of (sessions m') ex_uuid3 = Some s \<and>
        map_of (Session.Players s) ''a'' = Some 1 \<and>
        (case map_of (lobbies m') ex_uuid2 of
           None \<Rightarrow> False
         | Some l \<Rightarrow> map_of (Lobby.Players l) ''a'' = Some 1)"
    using ex_lobbies_heap
    by (simp add: ex_hand_off_def ex_lobbies_manager ex_uuids ex_quote_def
        Manager_StartSessionFromLobby_def Let_def NewSession_def Session_AddPlayer_def
        zeroTime_def)
  have 2: "Manager_GetLobby (snd ex_overlap) ex_uuid1 =
     Some \<lparr>Lobby.ID = ex_uuid1, Lobby.Players = [(''b'', 2), (''a'', 1)],
            Lobby.MaxPlayers = 1, CreatedAt = 2000\<rparr>"
    by (simp add: ex_overlap_manager Manager_GetLobby_def)
  have 3: "case ex_crowded_hand_off of
      Inl e \<Rightarrow> False
    | Inr (h', m', s) \<Rightarrow>
        Session.Players s = [(''b'', 2)] \<and> Session.MaxPlayers s = 1 \<and>
        Manager_GetLobby m' ex_uuid1 = None"
    using ex_overlap_heap
    by (simp add: ex_crowded_hand_off_def ex_overlap_manager ex_uuids ex_quote_def
        Manager_StartSessionFromLobby_def Manager_GetLobby_def Let_def NewSession_def
        Session_AddPlayer_def zeroTime_def)
  from serial_ex_lobbies 1 2 3 show ?thesis
    by (intro conjI)
qed

text \<open>
  Claim C2, amended. A call of \<open>StartSessionFromLobby\<close> that no other call overlaps fails
  with \<open>LobbyNotFound\<close> when no lobby has the identifier and with \<open>NotEnoughPlayers\<close> when
  the lobby has fewer than two members. Otherwise it succeeds: the session it returns has
  the generator's identifier, the quote as prompt and author and the lobby's capacity,
  and is not finished; it is stored in the session registry under its identifier, the
  lobby is gone from the lobby registry, every other lobby and the player registry are
  as before, and the members' \<open>SessionID\<close> is the session's. When the lobby has no more
  members than its capacity, each under its own identifier, the session's roster is the
  lobby's. Nothing is said of \<open>IsActive\<close> and \<open>Countdown\<close>, nor of the roster of a session
  made from a lobby that has more members than its capacity.
\<close>

theorem StartSessionFromLobby_hand_off:
  "(map_of (lobbies m) lobbyID = None \<longrightarrow>
      Manager_StartSessionFromLobby h m lobbyID quote uuid = Inl LobbyNotFound) \<and>
   (\<forall>lobby. map_of (lobbies m) lobbyID = Some lobby \<and> length (Lobby.Players lobby) < 2 \<longrightarrow>
      Manager_StartSessionFromLobby h m lobbyID quote uuid = Inl NotEnoughPlayers) \<and>
   (\<forall>lobby. map_of (lobbies m) lobbyID = Some lobby \<and> 2 \<le> length (Lobby.Players lobby) \<longrightarrow>
      (\<exists>h' m' session.
         Manager_StartSessionFromLobby h m lobbyID quote uuid = Inr (h', m', session) \<and>
         Session.ID session = uuid \<and>
         Prompt session = Content quote \<and>
         Session.Author session = Quote.Author quote \<and>
         Session.MaxPlayers session = Lobby.MaxPlayers lobby \<and>
         \<not> Session.IsFinished session \<and>
         map_of (sessions m') = (map_of (sessions m))(uuid \<mapsto> session) \<and>
         map_of (lobbies m') = (map_of (lobbies m))(lobbyID := None) \<and>
         players m' = players m \<and>
         (\<forall>r. h' r = (if r \<in> snd ` set (Lobby.Players lobby)
                       then (h r)\<lparr>SessionID := uuid\<rparr> else h r)) \<and>
         (int (length (Lobby.Players lobby)) \<le> Lobby.MaxPlayers lobby \<and>
          distinct (map fst (Lobby.Players lobby)) \<and>
          (\<forall>(k, r) \<in> set (Lobby.Players lobby). Player.ID (h r) = k) \<longrightarrow>
          Session.Players session = Lobby.Players lobby)))"
proof (intro conjI allI impI)
  assume "map_of (lobbies m) lobbyID = None"
  then show "Manager_StartSessionFromLobby h m lobbyID quote uuid = Inl LobbyNotFound"
    by (simp add: Manager_StartSessionFromLobby_def)
next
  fix lobby
  assume "map_of (lobbies m) lobbyID = Some lobby \<and> length (Lobby.Players lobby) < 2"
  then show "Manager_StartSessionFromLobby h m lobbyID quote uuid = Inl NotEnoughPlayers"
    by (simp add: Manager_StartSessionFromLobby_def)
next
  fix lobby
  assume a: "map_of (lobbies m) lobbyID = Some lobby \<and> 2 \<le> length (Lobby.Players lobby)"
  then have l: "map_of (lobbies m) lobbyID = Some lobby" and g: "2 \<le> length (Lobby.Players lobby)"
    by simp_all
  let ?n = "NewSession uuid (Content quote) (Quote.Author quote) (Lobby.MaxPlayers lobby)"
  let ?r = "addLobbyPlayers h ?n uuid (Lobby.Players lobby)"
  have f: "snd ?r = ?n\<lparr>Session.Players := Session.Players (snd ?r)\<rparr>"
    by (rule addLobbyPlayers_fields)
  have e: "Manager_StartSessionFromLobby h m lobbyID quote uuid =
           Inr (fst ?r, m\<lparr>sessions := AList.update uuid (snd ?r) (sessions m),
                          lobbies := AList.delete lobbyID (lobbies m)\<rparr>, snd ?r)"
    using l g by (simp add: Manager_StartSessionFromLobby_def Let_def case_prod_unfold)
  show "\<exists>h' m' session.
         Manager_StartSessionFromLobby h m lobbyID quote uuid = Inr (h', m', session) \<and>
         Session.ID session = uuid \<and>
         Prompt session = Content quote \<and>
         Session.Author session = Quote.Author quote \<and>
         Session.MaxPlayers session = Lobby.MaxPlayers lobby \<and>
         \<not> Session.IsFinished session \<and>
         map_of (sessions m') = (map_of (sessions m))(uuid \<mapsto> session) \<and>
         map_of (lobbies m') = (map_of (lobbies m))(lobbyID := None) \<and>
         players m' = players m \<and>
         (\<forall>r. h' r = (if r \<in> snd ` set (Lobby.Players lobby)
                       then (h r)\<lparr>SessionID := uuid\<rparr> else h r)) \<and>
         (int (length (Lobby.Players lobby)) \<le> Lobby.MaxPlayers lobby \<and>
          distinct (map fst (Lobby.Players lobby)) \<and>
          (\<forall>(k, r) \<in> set (Lobby.Players lobby). Player.ID (h r) = k) \<longrightarrow>
          Session.Players session = Lobby.Players lobby)"
  proof (intro exI conjI)
    let ?m = "m\<lparr>sessions := AList.update uuid (snd ?r) (sessions m),
                  lobbies := AList.delete lobbyID (lobbies m)\<rparr>"
    show "Manager_StartSessionFromLobby h m lobbyID quote uuid = Inr (fst ?r, ?m, snd ?r)"
      by (rule e)
    show "Session.ID (snd ?r) = uuid"
      by (subst f) (simp add: NewSession_def)
    show "Prompt (snd ?r) = Content quote"
      by (subst f) (simp add: NewSession_def)
    show "Session.Author (snd ?r) = Quote.Author quote"
      by (subst f) (simp add: NewSession_def)
    show "Session.MaxPlayers (snd ?r) = Lobby.MaxPlayers lobby"
      by (subst f) (simp add: NewSession_def)
    show "\<not> Session.IsFinished (snd ?r)"
      by (subst f) (simp add: NewSession_def)
    show "map_of (sessions ?m) = (map_of (sessions m))(uuid \<mapsto> snd ?r)"
      by (simp add: update_conv')
    show "map_of (lobbies ?m) = (map_of (lobbies m))(lobbyID := None)"
      by (simp add: delete_conv')
    show "players ?m = players m"
      by simp
    show "\<forall>r. fst ?r r = (if r \<in> snd ` set (Lobby.Players lobby)
                         then (h r)\<lparr>SessionID := uuid\<rparr> else h r)"
      by (simp add: addLobbyPlayers_heap)
    show "int (length (Lobby.Players lobby)) \<le> Lobby.MaxPlayers lobby \<and>
          distinct (map fst (Lobby.Players lobby)) \<and>
          (\<forall>(k, r) \<in> set (Lobby.Players lobby). Player.ID (h r) = k) \<longrightarrow>
          Session.Players (snd ?r) = Lobby.Players lobby"
    proof
      assume b: "int (length (Lobby.Players lobby)) \<le> Lobby.MaxPlayers lobby \<and>
          distinct (map fst (Lobby.Players lobby)) \<and>
          (\<forall>(k, r) \<in> set (Lobby.Players lobby). Player.ID (h r) = k)"
      then have ro: "roster_ok h (Lobby.Players lobby)"
        by (simp add: roster_ok_def)
      have s: "snd ?r = ?n\<lparr>Session.Players := Session.Players ?n @ Lobby.Players lobby\<rparr>"
        using ro b by (intro addLobbyPlayers_roster) (simp_all add: NewSession_def)
      show "Session.Players (snd ?r) = Lobby.Players lobby"
        unfolding s by (simp add: NewSession_def)
    qed
  qed
qed

theorem StartSessionFromLobby_hand_off_witness:
  "map_of (lobbies (snd ex_lobbies)) ''nowhere'' = None \<and>
   Manager_StartSessionFromLobby (fst ex_lobbies) (snd ex_lobbies) ''nowhere'' ex_quote ex_uuid3
     = Inl LobbyNotFound \<and>
   length (Lobby.Players (the (map_of (lobbies (snd ex_lobbies)) ex_uuid4))) < 2 \<and>
   Manager_StartSessionFromLobby (fst ex_lobbies) (snd ex_lobbies) ex_uuid4 ex_quote ex_uuid3
     = Inl NotEnoughPlayers \<and>
   map_of (lobbies (snd ex_lobbies)) ex_uuid1 =
     Some \<lparr>Lobby.ID = ex_uuid1, Lobby.Players = [(''a'', 1), (''b'', 2)],
            Lobby.MaxPlayers = 2, CreatedAt = 2000\<rparr> \<and>
   Player.ID (fst ex_lobbies 1) = ''a'' \<and> Player.ID (fst ex_lobbies 2) = ''b'' \<and>
   (\<exists>h' m' session.
      ex_hand_off = Inr (h', m', session) \<and>
      Session.MaxPlayers session = 2 \<and>
      Session.Players session = [(''a'', 1), (''b'', 2)] \<and>
      map_of (sessions m') ex_uuid3 = Some session \<and>
      map_of (lobbies m') ex_uuid1 = None)"
proof -
  let ?l1 = "\<lparr>Lobby.ID = ex_uuid1, Lobby.Players = [(''a'', 1), (''b'', 2)],
              Lobby.MaxPlayers = 2, CreatedAt = 2000\<rparr>"
  let ?l4 = "the (map_of (lobbies (snd ex_lobbies)) ex_uuid4)"
  have n: "map_of (lobbies (snd ex_lobbies)) ''nowhere'' = None"
    by (simp add: ex_lobbies_manager ex_uuids)
  have l4: "map_of (lobbies (snd ex_lobbies)) ex_uuid4 = Some ?l4"
    and s4: "length (Lobby.Players ?l4) < 2"
    by (simp_all add: ex_lobbies_manager ex_uuids)
  have l1: "map_of (lobbies (snd ex_lobbies)) ex_uuid1 = Some ?l1"
    by (simp add: ex_lobbies_manager ex_uuids)
  have s1: "2 \<le> length (Lobby.Players ?l1)"
    and c1: "int (length (Lobby.Players ?l1)) \<le> Lobby.MaxPlayers ?l1"
    and d1: "distinct (map fst (Lobby.Players ?l1))"
    by simp_all
  have i: "Player.ID (fst ex_lobbies 1) = ''a''" "Player.ID (fst ex_lobbies 2) = ''b''"
    using ex_lobbies_heap by simp_all
  then have i1: "\<forall>(k, r) \<in> set (Lobby.Players ?l1). Player.ID (fst ex_lobbies r) = k"
    by simp
  from StartSessionFromLobby_hand_off [of "snd ex_lobbies" "''nowhere''" "fst ex_lobbies" ex_quote ex_uuid3] n
  have a: "Manager_StartSessionFromLobby (fst ex_lobbies) (snd ex_lobbies) ''nowhere'' ex_quote ex_uuid3
     = Inl LobbyNotFound"
    by blast
  from StartSessionFromLobby_hand_off [of "snd ex_lobbies" ex_uuid4 "fst ex_lobbies" ex_quote ex_uuid3] l4 s4
  have b: "Manager_StartSessionFromLobby (fst ex_lobbies) (snd ex_lobbies) ex_uuid4 ex_quote ex_uuid3
     = Inl NotEnoughPlayers"
    by blast
  from StartSessionFromLobby_hand_off [of "snd ex_lobbies" ex_uuid1 "fst ex_lobbies" ex_quote ex_uuid3]
    l1 s1
  obtain h' m' session where "ex_hand_off = Inr (h', m', session)"
    and "Session.MaxPlayers session = Lobby.MaxPlayers ?l1"
    and "map_of (sessions m') = (map_of (sessions (snd ex_lobbies)))(ex_uuid3 \<mapsto> session)"
    and "map_of (lobbies m') = (map_of (lobbies (snd ex_lobbies)))(ex_uuid1 := None)"
    and "int (length (Lobby.Players ?l1)) \<le> Lobby.MaxPlayers ?l1 \<and>
          distinct (map fst (Lobby.Players ?l1)) \<and>
          (\<forall>(k, r) \<in> set (Lobby.Players ?l1). Player.ID (fst ex_lobbies r) = k) \<longrightarrow>
          Session.Players session = Lobby.Players ?l1"
    unfolding ex_hand_off_def by blast
  then have "ex_hand_off = Inr (h', m', session) \<and>
      Session.MaxPlayers session = 2 \<and>
      Session.Players session = [(''a'', 1), (''b'', 2)] \<and>
      map_of (sessions m') ex_uuid3 = Some session \<and>
      map_of (lobbies m') ex_uuid1 = None"
    using c1 d1 i1 by simp
  then have c: "\<exists>h' m' session.
      ex_hand_off = Inr (h', m', session) \<and>
      Session.MaxPlayers session = 2 \<and>
      Session.Players session = [(''a'', 1), (''b'', 2)] \<and>
      map_of (sessions m') ex_uuid3 = Some session \<and>
      map_of (lobbies m') ex_uuid1 = None"
    by blast
  from n a s4 b l1 i c show ?thesis
    by (intro conjI)
qed


subsection \<open>UpdatePlayerProgress\<close>

lemma Manager_UpdatePlayerProgress_error_iff:
  "isl (Manager_UpdatePlayerProgress h m playerID typedInput now1 now2 now3 now4) \<longleftrightarrow>
     map_of (sessions m) playerID = None \<and>
     (\<forall>(k, s) \<in> set (sessions m). map_of (Session.Players s) playerID = None)"
proof (cases "map_of (sessions m) playerID")
  case None
  show ?thesis
  proof (cases "findSession playerID (sessions m)")
    case n: None
    then show ?thesis
      using None findSession_None [of playerID "sessions m"]
      by (simp add: Manager_UpdatePlayerProgress_def)
  next
    case (Some a)
    then show ?thesis
      using None findSession_None [of playerID "sessions m"]
      by (simp add: Manager_UpdatePlayerProgress_def Let_def case_prod_unfold)
  qed
next
  case (Some s)
  then show ?thesis
    by (simp add: Manager_UpdatePlayerProgress_def Let_def case_prod_unfold)
qed

lemma Manager_UpdatePlayerProgress_error:
  "Manager_UpdatePlayerProgress h m playerID typedInput now1 now2 now3 now4 = Inl e
   \<Longrightarrow> e = PlayerNotInSession"
  by (auto simp add: Manager_UpdatePlayerProgress_def Let_def case_prod_unfold
      split: option.splits)

text \<open>
  Claim C4. A progress update for a player that no session holds should fail with
  \<open>PlayerNotInSession\<close>. In \<open>ex_started\<close> a player is registered under the name that is
  the identifier of the running session, and is in no session; the update for that player
  finds the session in the registry under the player's id, returns no error and changes
  nothing.
\<close>

theorem UpdatePlayerProgress_session_under_player_id:
  "serial ex_started \<and>
   map_of (players (snd ex_started)) ex_uuid3 = Some 4 \<and>
   map_of (Session.Players (the (map_of (sessions (snd ex_started)) ex_uuid3))) ex_uuid3 = None \<and>
   findSession ex_uuid3 (sessions (snd ex_started)) = None \<and>
   Manager_UpdatePlayerProgress (fst ex_started) (snd ex_started) ex_uuid3 ''c''
     9000 9000 9000 9000 = Inr (fst ex_started, snd ex_started)"
  by (simp add: serial_ex_started ex_started_manager ex_uuids Manager_UpdatePlayerProgress_def
      Session_UpdatePlayerProgress_def Session_GetPlayer_def)


end
